(* ===== verification/Prelude.thy ===== *)
theory Prelude
  imports Main "HOL-Library.Word" "HOL-Library.Sublist" "HOL-Library.Code_Target_Nat"
begin

text \<open>
  Shared vocabulary of the sloader development: the machine types of x86-64 Linux, the ways a
  process can stop before a C++ function returns, the result type that carries them, loops that
  stop at the first failure, and the alignment arithmetic of pages and of the loader's four
  megabyte slots. \<open>res_simps\<close> collects the rewrite rules that take results apart,
  \<open>align_simps\<close> the arithmetic of aligned addresses, \<open>eval_simps\<close> the rules with which the
  simplifier runs the model on concrete inputs.
\<close>

unbundle bit_operations_syntax

named_theorems res_simps \<open>rewrite rules for results and checked loops\<close>
named_theorems align_simps \<open>arithmetic of aligned addresses\<close>
named_theorems eval_simps \<open>rules that evaluate the model on concrete inputs\<close>

section \<open>Machine types\<close>

type_synonym byte = "8 word"
type_synonym u16 = "16 word"
type_synonym u32 = "32 word"
type_synonym u64 = "64 word"
type_synonym addr = "64 word"
type_synonym path = string

section \<open>Results\<close>

text \<open>
  How a call may fail to return. \<open>ExitWith\<close> is \<open>exit(n)\<close> (a failed \<open>CHECK\<close> is
  \<open>exit(1)\<close>), \<open>Aborted\<close> is \<open>std::abort\<close>, \<open>Segv\<close> an access to an unmapped
  address, \<open>Sigfpe\<close> an integer division by zero, \<open>Uncaught\<close> a C++ exception nobody
  catches, and \<open>Indeterminate\<close> the use of an object that was never given a value.
\<close>

datatype stop = ExitWith int | Aborted | Segv | Sigfpe | Uncaught | Indeterminate

type_synonym 'a res = "stop + 'a"

definition rbind :: "'a res \<Rightarrow> ('a \<Rightarrow> 'b res) \<Rightarrow> 'b res" where
  "rbind r f = (case r of Inl e \<Rightarrow> Inl e | Inr x \<Rightarrow> f x)"

lemma rbind_Inl [simp, res_simps]: "rbind (Inl e) f = Inl e"
  by (simp add: rbind_def)

lemma rbind_Inr [simp, res_simps]: "rbind (Inr x) f = f x"
  by (simp add: rbind_def)

lemma rbind_eq_Inr [res_simps]: "rbind r f = Inr y \<longleftrightarrow> (\<exists>x. r = Inr x \<and> f x = Inr y)"
  by (cases r) auto

lemma rbind_eq_Inl [res_simps]:
  "rbind r f = Inl e \<longleftrightarrow> r = Inl e \<or> (\<exists>x. r = Inr x \<and> f x = Inl e)"
  by (cases r) auto

lemma rbind_cong [fundef_cong]:
  "r = r' \<Longrightarrow> (\<And>x. r' = Inr x \<Longrightarrow> f x = f' x) \<Longrightarrow> rbind r f = rbind r' f'"
  by (cases r') auto

lemma rbind_assoc: "rbind (rbind r f) g = rbind r (\<lambda>x. rbind (f x) g)"
  by (cases r) auto

text \<open>The macro \<open>CHECK\<close> of \<open>utils.h\<close> and its comparison forms: leave with status 1.\<close>

definition CHECK :: "bool \<Rightarrow> unit res" where
  "CHECK x = (if \<not> x then Inl (ExitWith 1) else Inr ())"

lemma CHECK_eq_Inr [simp, res_simps]: "CHECK x = Inr u \<longleftrightarrow> x"
  by (simp add: CHECK_def)

lemma CHECK_eq_Inl [simp, res_simps]: "CHECK x = Inl e \<longleftrightarrow> \<not> x \<and> e = ExitWith 1"
  by (auto simp: CHECK_def)

lemma rbind_CHECK: "rbind (CHECK x) f = (if x then f () else Inl (ExitWith 1))"
  by (simp add: CHECK_def)

section \<open>Loops that stop at the first failure\<close>

fun foldR :: "('s \<Rightarrow> 'x \<Rightarrow> 's res) \<Rightarrow> 's \<Rightarrow> 'x list \<Rightarrow> 's res" where
  "foldR f s [] = Inr s"
| "foldR f s (x # xs) = rbind (f s x) (\<lambda>s'. foldR f s' xs)"

fun mapR :: "('x \<Rightarrow> 'y res) \<Rightarrow> 'x list \<Rightarrow> 'y list res" where
  "mapR f [] = Inr []"
| "mapR f (x # xs) = rbind (f x) (\<lambda>y. rbind (mapR f xs) (\<lambda>ys. Inr (y # ys)))"

lemma mapR_Inr: "(\<And>x. x \<in> set xs \<Longrightarrow> f x = Inr (g x)) \<Longrightarrow> mapR f xs = Inr (map g xs)"
  by (induction xs) auto

lemma mapR_map: "mapR f (map g xs) = mapR (\<lambda>x. f (g x)) xs"
  by (induction xs) auto

lemma mapR_upt_Suc:
  "mapR f [0..<Suc n] = rbind (f 0) (\<lambda>y. rbind (mapR (\<lambda>i. f (Suc i)) [0..<n]) (\<lambda>ys. Inr (y # ys)))"
proof -
  have "[0..<Suc n] = 0 # map Suc [0..<n]" by (simp add: upt_conv_Cons map_Suc_upt del: upt_Suc)
  then show ?thesis by (simp only: mapR.simps mapR_map)
qed

lemma foldR_append [res_simps]:
  "foldR f s (xs @ ys) = rbind (foldR f s xs) (\<lambda>s'. foldR f s' ys)"
  by (induction xs arbitrary: s) (simp_all add: rbind_assoc)

lemma foldR_cong [fundef_cong]:
  "s = s' \<Longrightarrow> xs = xs' \<Longrightarrow> (\<And>t x. x \<in> set xs' \<Longrightarrow> f t x = f' t x)
    \<Longrightarrow> foldR f s xs = foldR f' s' xs'"
proof (induction xs' arbitrary: s s' xs)
  case Nil
  then show ?case by simp
next
  case (Cons x xs')
  then show ?case by (auto intro!: rbind_cong)
qed

lemma mapR_total: "(\<And>x. x \<in> set xs \<Longrightarrow> \<exists>y. f x = Inr y) \<Longrightarrow> \<exists>ys. mapR f xs = Inr ys"
proof (induction xs)
  case Nil
  then show ?case by simp
next
  case (Cons x xs)
  then obtain y ys where "f x = Inr y" "mapR f xs = Inr ys" by fastforce
  then show ?case by simp
qed

lemma mapR_length: "mapR f xs = Inr ys \<Longrightarrow> length ys = length xs"
  by (induction xs arbitrary: ys) (auto simp: res_simps)

lemma mapR_nth: "mapR f xs = Inr ys \<Longrightarrow> i < length xs \<Longrightarrow> f (xs ! i) = Inr (ys ! i)"
proof (induction xs arbitrary: ys i)
  case Nil
  then show ?case by simp
next
  case (Cons x xs)
  then show ?case by (cases i) (auto simp: res_simps)
qed

text \<open>
  A loop invariant: the contract between one iteration and the loop around it. Every
  \<open>for\<close> loop of the program that is a checked fold is an instance.
\<close>

locale checked_loop =
  fixes step :: "'s \<Rightarrow> 'x \<Rightarrow> 's res"
    and inv :: "'s \<Rightarrow> bool"
  assumes step_inv: "inv s \<Longrightarrow> step s x = Inr s' \<Longrightarrow> inv s'"
begin

lemma loop_inv: "inv s \<Longrightarrow> foldR step s xs = Inr s' \<Longrightarrow> inv s'"
  by (induction xs arbitrary: s) (auto simp: res_simps dest: step_inv)

end

section \<open>Evaluation\<close>

lemma replicate_numeral [eval_simps]:
  "replicate (numeral k) x = x # replicate (pred_numeral k) x"
  by (simp add: numeral_eq_Suc)

lemma eval_upt [eval_simps]:
  "[i..<numeral k] = (if i < numeral k then i # [Suc i..<numeral k] else [])"
  by (rule upt_rec)

lemmas eval_CHECK [eval_simps] = CHECK_def
lemmas eval_Let [eval_simps] = Let_def

section \<open>Words as naturals\<close>

lemma unat_u64_less: "unat (x :: u64) < 2 ^ 64"
  using unsigned_less [of x] by simp

lemma unat_of_nat_u64: "n < 2 ^ 64 \<Longrightarrow> unat (of_nat n :: u64) = n"
  by (simp add: unsigned_of_nat take_bit_nat_eq_self)

lemma unat_minus_one_u64: "unat (- 1 :: u64) = 2 ^ 64 - 1"
  by (simp add: unsigned_minus_1_eq_mask mask_eq_exp_minus_1)

lemma unat_Suc_u64: "a \<noteq> (- 1 :: u64) \<Longrightarrow> unat (a + 1) = Suc (unat a)"
  by (metis add.commute eq_neg_iff_add_eq_0 unatSuc)

lemma unat_add_u64: "unat x + unat y < 2 ^ 64 \<Longrightarrow> unat (x + y :: u64) = unat x + unat y"
  by (simp add: unat_word_ariths)

lemma unat_diff_fits:
  "unat s + unat (e - s) < 2 ^ 64 \<Longrightarrow> unat s + unat (e - s) = unat (e :: u64)"
  using unat_add_u64 [of s "e - s"] by simp

section \<open>Alignment\<close>

text \<open>\<open>x & ~0xfff\<close>, \<open>(x + 0xfff) & ~0xfff\<close> and the rounding of \<open>ELFBinary::Load\<close>.\<close>

definition page_floor :: "u64 \<Rightarrow> u64" where
  "page_floor x = x AND NOT 0xfff"

definition page_ceil :: "u64 \<Rightarrow> u64" where
  "page_ceil x = (x + 0xfff) AND NOT 0xfff"

definition slot_ceil :: "u64 \<Rightarrow> u64" where
  "slot_ceil x = (x + (0x400000 - 1)) div 0x400000 * 0x400000"

lemma and_not_page: "x AND NOT 0xfff = x - x mod (0x1000 :: u64)"
proof -
  have m: "(0xfff :: u64) = mask 12" by (simp add: mask_eq_exp_minus_1)
  have "(x AND mask 12) + (x AND NOT (mask 12)) = (x AND mask 12) OR (x AND NOT (mask 12))"
    by (rule disjunctive_add) (simp add: bit_simps)
  also have "\<dots> = x" by (rule bit_eqI) (auto simp: bit_simps)
  finally have "(x AND mask 12) + (x AND NOT (mask 12)) = x" .
  moreover have "x AND mask 12 = x mod 0x1000"
    by (simp add: take_bit_eq_mask[symmetric] take_bit_eq_mod)
  ultimately show ?thesis
    unfolding m by (metis add_diff_cancel_left')
qed

lemma unat_page_floor [align_simps]: "unat (page_floor x) = unat x div 4096 * 4096"
proof -
  have "x mod 0x1000 \<le> x" by (simp add: word_le_nat_alt unat_mod)
  then have "unat (x - x mod 0x1000) = unat x - unat (x mod 0x1000)"
    by (rule unat_sub)
  also have "unat (x mod 0x1000) = unat x mod 4096" by (simp add: unat_mod)
  finally show ?thesis
    unfolding page_floor_def and_not_page by (simp only: minus_mod_eq_div_mult)
qed

lemma page_ceil_floor: "page_ceil x = page_floor (x + 0xfff)"
  by (simp add: page_ceil_def page_floor_def)

lemma unat_page_ceil [align_simps]:
  "unat x + 4095 < 2 ^ 64 \<Longrightarrow> unat (page_ceil x) = (unat x + 4095) div 4096 * 4096"
  by (simp add: page_ceil_floor unat_page_floor unat_word_ariths)

lemma unat_slot_ceil [align_simps]:
  "unat x + 0x3fffff < 2 ^ 64 \<Longrightarrow> unat (slot_ceil x) = (unat x + 0x3fffff) div 0x400000 * 0x400000"
proof -
  assume h: "unat x + 0x3fffff < 2 ^ 64"
  have "(unat x + 0x3fffff) div 0x400000 * 0x400000 \<le> unat x + 0x3fffff" by simp
  with h show ?thesis by (simp add: slot_ceil_def unat_word_ariths unat_div)
qed

lemma unat_offset_range:
  fixes a x :: addr
  assumes "unat a + n \<le> 2 ^ 64"
  shows "unat (x - a) < n \<longleftrightarrow> unat a \<le> unat x \<and> unat x < unat a + n"
proof (cases "a \<le> x")
  case True
  then have "unat (x - a) = unat x - unat a" by (rule unat_sub)
  with True show ?thesis by (auto simp: word_le_nat_alt)
next
  case False
  then have "unat (x - a) = 2 ^ 64 + unat x - unat a"
    by (simp add: unat_sub_if' word_le_nat_alt)
  with False assms show ?thesis by (auto simp: word_le_nat_alt)
qed

end
