(* ===== verification/Memory.thy ===== *)
theory Memory
  imports Prelude
begin

text \<open>
  The byte memory of the process. An address is mapped when it holds a byte; touching any
  other address is the \<open>Segv\<close> of the prelude. \<open>read_bytes\<close>, \<open>write_bytes\<close> and
  the C functions over them are what the loader's pointer accesses, \<open>memcpy\<close>,
  \<open>memset\<close> and \<open>char*\<close> strings mean. The locale \<open>byte_store\<close> is the contract
  the relocation and loading proofs rely on; it is interpreted on these definitions.
\<close>

type_synonym memory = "addr \<Rightarrow> byte option"

section \<open>Reading and writing\<close>

fun read_bytes :: "memory \<Rightarrow> addr \<Rightarrow> nat \<Rightarrow> byte list res" where
  "read_bytes m a 0 = Inr []"
| "read_bytes m a (Suc n) =
     (case m a of None \<Rightarrow> Inl Segv
      | Some b \<Rightarrow> rbind (read_bytes m (a + 1) n) (\<lambda>bs. Inr (b # bs)))"

fun write_bytes :: "memory \<Rightarrow> addr \<Rightarrow> byte list \<Rightarrow> memory res" where
  "write_bytes m a [] = Inr m"
| "write_bytes m a (b # bs) =
     (if m a = None then Inl Segv else write_bytes (m(a \<mapsto> b)) (a + 1) bs)"

text \<open>Little-endian integers.\<close>

fun le_nat :: "byte list \<Rightarrow> nat" where
  "le_nat [] = 0"
| "le_nat (b # bs) = unat b + 256 * le_nat bs"

fun le_bytes :: "nat \<Rightarrow> nat \<Rightarrow> byte list" where
  "le_bytes 0 n = []"
| "le_bytes (Suc k) n = of_nat (n mod 256) # le_bytes k (n div 256)"

definition read_u64 :: "memory \<Rightarrow> addr \<Rightarrow> u64 res" where
  "read_u64 m a = rbind (read_bytes m a 8) (\<lambda>bs. Inr (of_nat (le_nat bs)))"

definition write_u64 :: "memory \<Rightarrow> addr \<Rightarrow> u64 \<Rightarrow> memory res" where
  "write_u64 m a w = write_bytes m a (le_bytes 8 (unat w))"

definition memcpy :: "memory \<Rightarrow> addr \<Rightarrow> addr \<Rightarrow> u64 \<Rightarrow> memory res" where
  "memcpy m dest src n = rbind (read_bytes m src (unat n)) (write_bytes m dest)"

definition memset :: "memory \<Rightarrow> addr \<Rightarrow> byte \<Rightarrow> u64 \<Rightarrow> memory res" where
  "memset m dest b n = write_bytes m dest (replicate (unat n) b)"

text \<open>
  A C string: the characters up to the terminating zero. No object reaches past the last
  address, so a scan that has read the last address without a zero faults.
\<close>

function read_cstr :: "memory \<Rightarrow> addr \<Rightarrow> string res" where
  "read_cstr m a =
     (case m a of None \<Rightarrow> Inl Segv
      | Some b \<Rightarrow>
          if b = 0 then Inr []
          else if a = - 1 then Inl Segv
          else rbind (read_cstr m (a + 1)) (\<lambda>s. Inr (char_of (unat b) # s)))"
  by pat_completeness auto
termination
proof (relation "measure (\<lambda>(m, a). 2 ^ 64 - unat a)", goal_cases)
  case 1
  show ?case by simp
next
  case (2 m a b)
  then have "unat (a + 1) = Suc (unat a)"
    by (simp add: unat_Suc_u64)
  with unat_u64_less [of "a + 1"] show ?case by simp
qed

declare read_cstr.simps [simp del]

lemma read_bytes_numeral [eval_simps]:
  "read_bytes m a (numeral k) =
     (case m a of None \<Rightarrow> Inl Segv
      | Some b \<Rightarrow> rbind (read_bytes m (a + 1) (pred_numeral k)) (\<lambda>bs. Inr (b # bs)))"
  by (simp add: numeral_eq_Suc)

lemma le_bytes_numeral [eval_simps]:
  "le_bytes (numeral k) n = of_nat (n mod 256) # le_bytes (pred_numeral k) (n div 256)"
  unfolding numeral_eq_Suc [of k] by (rule le_bytes.simps)

lemmas eval_memory [eval_simps] = read_u64_def write_u64_def memcpy_def memset_def

section \<open>What reads and writes do\<close>

lemma read_bytes_iff:
  "read_bytes m a n = Inr bs \<longleftrightarrow> length bs = n \<and> (\<forall>i < n. m (a + of_nat i) = Some (bs ! i))"
proof (induction n arbitrary: a bs)
  case 0
  then show ?case by auto
next
  case (Suc n)
  show ?case
  proof (cases bs)
    case Nil
    then show ?thesis by (auto simp: res_simps split: option.splits)
  next
    case (Cons b bs')
    have "(\<forall>i < Suc n. m (a + of_nat i) = Some (bs ! i)) \<longleftrightarrow>
          m a = Some b \<and> (\<forall>i < n. m (a + 1 + of_nat i) = Some (bs' ! i))"
      using Cons by (simp add: All_less_Suc2 add.assoc)
    with Suc.IH [of "a + 1" bs'] Cons show ?thesis
      by (auto simp: res_simps split: option.splits)
  qed
qed

lemma read_bytes_length: "read_bytes m a n = Inr bs \<Longrightarrow> length bs = n"
  by (simp add: read_bytes_iff)

lemma unat_minus_Suc:
  fixes x a :: addr
  assumes "x \<noteq> a"
  shows "unat (x - a) = Suc (unat (x - (a + 1)))"
proof -
  have "x - a \<noteq> 0" using assms by simp
  then have "unat ((x - a) - 1) = unat (x - a) - 1" by (rule unat_minus_one)
  moreover have "unat (x - a) \<noteq> 0" using assms by (simp add: unat_eq_0)
  ultimately show ?thesis by (simp add: algebra_simps)
qed

lemma write_bytes_at:
  assumes "write_bytes m a bs = Inr m'" and "length bs \<le> 2 ^ 64"
  shows "m' x = (if unat (x - a) < length bs then Some (bs ! unat (x - a)) else m x)"
  using assms
proof (induction bs arbitrary: m a)
  case Nil
  then show ?case by simp
next
  case (Cons b bs)
  then have IH: "m' x = (if unat (x - (a + 1)) < length bs then Some (bs ! unat (x - (a + 1)))
                         else (m(a \<mapsto> b)) x)"
    by (auto split: if_splits)
  show ?case
  proof (cases "x = a")
    case True
    then have "unat (x - (a + 1)) = 2 ^ 64 - 1"
      by (simp add: unat_minus_one_u64)
    with IH Cons.prems True show ?thesis by simp
  next
    case False
    with IH show ?thesis by (simp add: unat_minus_Suc)
  qed
qed

lemma write_bytes_ok_iff:
  assumes "length bs \<le> 2 ^ 64"
  shows "(\<exists>m'. write_bytes m a bs = Inr m') \<longleftrightarrow> (\<forall>i < length bs. m (a + of_nat i) \<noteq> None)"
  using assms
proof (induction bs arbitrary: m a)
  case Nil
  then show ?case by simp
next
  case (Cons b bs)
  have ne: "a + 1 + of_nat i \<noteq> a" if "i < length bs" for i
  proof -
    have "Suc i < 2 ^ 64" using that Cons.prems by simp
    then have "unat (of_nat (Suc i) :: addr) = Suc i" by (rule unat_of_nat_u64)
    then have "(of_nat (Suc i) :: addr) \<noteq> 0" by (metis nat.distinct(1) unat_0)
    then show ?thesis by (simp add: add.assoc)
  qed
  show ?case
    using Cons ne by (auto simp: All_less_Suc2 add.assoc)
qed

section \<open>Little-endian integers\<close>

lemma le_bytes_length [simp]: "length (le_bytes k n) = k"
  by (induction k arbitrary: n) auto

lemma le_nat_le_bytes: "le_nat (le_bytes k n) = n mod 256 ^ k"
proof (induction k arbitrary: n)
  case 0
  then show ?case by simp
next
  case (Suc k)
  have "unat (of_nat (n mod 256) :: byte) = n mod 256"
    by (simp add: unsigned_of_nat take_bit_eq_mod)
  with Suc show ?case by (simp add: mod_mult2_eq add.commute)
qed

lemma le_bytes_le_nat: "le_bytes (length bs) (le_nat bs) = bs"
proof (induction bs)
  case Nil
  then show ?case by simp
next
  case (Cons b bs)
  have "unat b < 256" using unsigned_less [of b] by simp
  with Cons show ?case by (simp add: take_bit_nat_eq_self)
qed

lemma le_u64_roundtrip: "of_nat (le_nat (le_bytes 8 (unat w))) = (w :: u64)"
  using unat_u64_less [of w] by (simp add: le_nat_le_bytes)

section \<open>The contract of a byte store\<close>

text \<open>
  What the loader relies on when it writes through a pointer: a write that returns has changed
  exactly the bytes it names, and it returns exactly when all of them were mapped.
\<close>

locale byte_store =
  fixes rd :: "'m \<Rightarrow> addr \<Rightarrow> byte option"
    and wr :: "'m \<Rightarrow> addr \<Rightarrow> byte list \<Rightarrow> 'm res"
  assumes wr_at: "wr m a bs = Inr m' \<Longrightarrow> length bs \<le> 2 ^ 64 \<Longrightarrow>
      rd m' x = (if unat (x - a) < length bs then Some (bs ! unat (x - a)) else rd m x)"
    and wr_ok: "length bs \<le> 2 ^ 64 \<Longrightarrow>
      (\<exists>m'. wr m a bs = Inr m') \<longleftrightarrow> (\<forall>i < length bs. rd m (a + of_nat i) \<noteq> None)"
begin

lemma wr_frame:
  "wr m a bs = Inr m' \<Longrightarrow> length bs \<le> 2 ^ 64 \<Longrightarrow> length bs \<le> unat (x - a) \<Longrightarrow> rd m' x = rd m x"
  by (simp add: wr_at)

lemma wr_mapped_iff:
  assumes "wr m a bs = Inr m'" and "length bs \<le> 2 ^ 64"
  shows "rd m' x = None \<longleftrightarrow> rd m x = None"
proof (cases "unat (x - a) < length bs")
  case True
  with wr_ok [of bs m a] assms have "rd m (a + of_nat (unat (x - a))) \<noteq> None" by blast
  then have "rd m x \<noteq> None" by simp
  with True assms show ?thesis by (simp add: wr_at)
next
  case False
  with assms show ?thesis by (simp add: wr_at)
qed

lemma wr_back:
  assumes "wr m a bs = Inr m'" and "length bs \<le> 2 ^ 64" and "i < length bs"
  shows "rd m' (a + of_nat i) = Some (bs ! i)"
proof -
  from assms(2,3) have "unat (of_nat i :: addr) = i" by (intro unat_of_nat_u64) linarith
  with assms show ?thesis by (simp add: wr_at)
qed

end

interpretation ram: byte_store "\<lambda>m. m" write_bytes
  by unfold_locales (rule write_bytes_at write_bytes_ok_iff; assumption)+

section \<open>The C functions\<close>

lemma write_u64_at:
  "write_u64 m a w = Inr m' \<Longrightarrow>
    m' x = (if unat (x - a) < 8 then Some (le_bytes 8 (unat w) ! unat (x - a)) else m x)"
  unfolding write_u64_def using ram.wr_at by fastforce

lemma write_u64_frame: "write_u64 m a w = Inr m' \<Longrightarrow> 8 \<le> unat (x - a) \<Longrightarrow> m' x = m x"
  by (simp add: write_u64_at)

lemma write_u64_mapped: "write_u64 m a w = Inr m' \<Longrightarrow> m' x = None \<longleftrightarrow> m x = None"
  unfolding write_u64_def using ram.wr_mapped_iff by fastforce

lemma read_write_u64: "write_u64 m a w = Inr m' \<Longrightarrow> read_u64 m' a = Inr w"
proof -
  assume w: "write_u64 m a w = Inr m'"
  have "m' (a + of_nat i) = Some (le_bytes 8 (unat w) ! i)" if "i < 8" for i
    using w that unfolding write_u64_def by (intro ram.wr_back) auto
  then have "read_bytes m' a 8 = Inr (le_bytes 8 (unat w))"
    by (simp add: read_bytes_iff)
  then show ?thesis by (simp add: read_u64_def le_u64_roundtrip)
qed

lemma read_bytes_cong:
  assumes "\<And>i. i < n \<Longrightarrow> m (a + of_nat i) = m' (a + of_nat i)"
  shows "read_bytes m a n = read_bytes m' a n"
  using assms
proof (induction n arbitrary: a)
  case 0
  then show ?case by simp
next
  case (Suc n)
  from Suc.prems [of 0] have "m a = m' a" by simp
  moreover have "read_bytes m (a + 1) n = read_bytes m' (a + 1) n"
    using Suc.prems [of "Suc i" for i] by (intro Suc.IH) (simp add: add.assoc)
  ultimately show ?case by (simp split: option.split)
qed

lemma read_u64_cong:
  "(\<And>i. i < 8 \<Longrightarrow> m (a + of_nat i) = m' (a + of_nat i)) \<Longrightarrow> read_u64 m a = read_u64 m' a"
  unfolding read_u64_def by (subst read_bytes_cong) auto

lemma memcpy_at:
  assumes "memcpy m dest src n = Inr m'"
  shows "m' x = (if unat (x - dest) < unat n then m (src + (x - dest)) else m x)"
proof -
  from assms obtain bs where r: "read_bytes m src (unat n) = Inr bs"
    and w: "write_bytes m dest bs = Inr m'"
    by (auto simp: memcpy_def res_simps)
  from r have len: "length bs = unat n"
    and at: "\<And>i. i < unat n \<Longrightarrow> m (src + of_nat i) = Some (bs ! i)"
    by (auto simp: read_bytes_iff)
  have "length bs \<le> 2 ^ 64" using len unat_u64_less [of n] by simp
  with w have "m' x = (if unat (x - dest) < length bs then Some (bs ! unat (x - dest)) else m x)"
    by (rule ram.wr_at)
  moreover have "m (src + (x - dest)) = Some (bs ! unat (x - dest))" if "unat (x - dest) < unat n"
    using at [OF that] by simp
  ultimately show ?thesis using len by simp
qed

lemma memcpy_mapped: "memcpy m dest src n = Inr m' \<Longrightarrow> m' x = None \<longleftrightarrow> m x = None"
proof -
  assume "memcpy m dest src n = Inr m'"
  then obtain bs where "read_bytes m src (unat n) = Inr bs" "write_bytes m dest bs = Inr m'"
    by (auto simp: memcpy_def res_simps)
  moreover from this have "length bs \<le> 2 ^ 64"
    using unat_u64_less [of n] by (simp add: read_bytes_length)
  ultimately show ?thesis using ram.wr_mapped_iff by blast
qed

lemma memset_at:
  "memset m dest b n = Inr m' \<Longrightarrow> m' x = (if unat (x - dest) < unat n then Some b else m x)"
  unfolding memset_def using unat_u64_less [of n] by (auto dest!: ram.wr_at [where x = x])

lemma memset_mapped: "memset m dest b n = Inr m' \<Longrightarrow> m' x = None \<longleftrightarrow> m x = None"
  unfolding memset_def using unat_u64_less [of n] by (auto dest!: ram.wr_mapped_iff [where x = x])

section \<open>When they return\<close>

definition mapped :: "memory \<Rightarrow> addr \<Rightarrow> nat \<Rightarrow> bool" where
  "mapped m a n \<longleftrightarrow> (\<forall>i < n. m (a + of_nat i) \<noteq> None)"

lemma mapped_cong: "(\<And>x. m' x = None \<longleftrightarrow> m x = None) \<Longrightarrow> mapped m' a n = mapped m a n"
  by (simp add: mapped_def)

lemma read_bytes_ok: "mapped m a n \<Longrightarrow> \<exists>bs. read_bytes m a n = Inr bs"
  unfolding mapped_def read_bytes_iff
  by (intro exI [of _ "map (\<lambda>i. the (m (a + of_nat i))) [0..<n]"]) auto

lemma read_u64_ok: "mapped m a 8 \<Longrightarrow> \<exists>v. read_u64 m a = Inr v"
  using read_bytes_ok [of m a 8] by (auto simp: read_u64_def)

lemma write_u64_ok: "mapped m a 8 \<Longrightarrow> \<exists>m'. write_u64 m a v = Inr m'"
  unfolding write_u64_def mapped_def using ram.wr_ok [of "le_bytes 8 (unat v)" m a] by simp

lemma memcpy_ok:
  assumes "mapped m dest (unat n)" and "mapped m src (unat n)"
  shows "\<exists>m'. memcpy m dest src n = Inr m'"
proof -
  from read_bytes_ok [OF assms(2)] obtain bs where bs: "read_bytes m src (unat n) = Inr bs" by blast
  then have "length bs = unat n" by (rule read_bytes_length)
  with assms(1) have "\<exists>m'. write_bytes m dest bs = Inr m'"
    using ram.wr_ok [of bs m dest] unat_u64_less [of n] by (simp add: mapped_def)
  with bs show ?thesis by (simp add: memcpy_def)
qed

lemma memset_ok: "mapped m dest (unat n) \<Longrightarrow> \<exists>m'. memset m dest b n = Inr m'"
  unfolding memset_def mapped_def
  using ram.wr_ok [of "replicate (unat n) b" m dest] unat_u64_less [of n] by simp

text \<open>The only way they fail is an access to unmapped memory.\<close>

lemma read_bytes_Segv: "read_bytes m a n = Inl e \<Longrightarrow> e = Segv"
  by (induction n arbitrary: a) (auto simp: res_simps split: option.splits)

lemma write_bytes_Segv: "write_bytes m a bs = Inl e \<Longrightarrow> e = Segv"
  by (induction bs arbitrary: m a) (auto split: if_splits)

lemma memcpy_Segv: "memcpy m dest src n = Inl e \<Longrightarrow> e = Segv"
  by (auto simp: memcpy_def res_simps dest: read_bytes_Segv write_bytes_Segv)

lemma memset_Segv: "memset m dest b n = Inl e \<Longrightarrow> e = Segv"
  by (auto simp: memset_def dest: write_bytes_Segv)

lemma write_u64_Segv: "write_u64 m a w = Inl e \<Longrightarrow> e = Segv"
  by (auto simp: write_u64_def dest: write_bytes_Segv)

end
