(* ===== verification/Cxx_Lib.thy ===== *)
theory Cxx_Lib
  imports Prelude
begin

text \<open>
  What the loader uses of \<open>std::string\<close> and \<open>std::filesystem::path\<close> on Linux:
  substring search, prefixes, the last component of a path, joining paths. A path is its
  string, with \<open>/\<close> as the only separator.
\<close>

section \<open>Strings\<close>

text \<open>\<open>s.find(sub)\<close>: the position of the first occurrence, or \<open>npos\<close>.\<close>

fun find_sub :: "string \<Rightarrow> string \<Rightarrow> nat option" where
  "find_sub sub [] = (if sub = [] then Some 0 else None)"
| "find_sub sub (c # cs) =
     (if prefix sub (c # cs) then Some 0 else map_option Suc (find_sub sub cs))"

definition contains :: "string \<Rightarrow> string \<Rightarrow> bool" where
  "contains s sub = (find_sub sub s \<noteq> None)"

definition starts_with :: "string \<Rightarrow> string \<Rightarrow> bool" where
  "starts_with s p = prefix p s"

lemma find_sub_Some:
  "find_sub sub s = Some k \<Longrightarrow> k + length sub \<le> length s \<and> prefix sub (drop k s)"
proof (induction s arbitrary: k)
  case Nil
  then show ?case by (auto split: if_splits)
next
  case (Cons c cs)
  show ?case
  proof (cases "prefix sub (c # cs)")
    case True
    with Cons.prems show ?thesis by (auto dest: prefix_length_le)
  next
    case False
    with Cons.prems obtain j where "find_sub sub cs = Some j" "k = Suc j" by auto
    with Cons.IH show ?thesis by auto
  qed
qed

text \<open>A first occurrence is also the first one of the text up to its end.\<close>

lemma find_sub_cut:
  "find_sub sub s = Some k \<Longrightarrow> find_sub sub (take k s @ sub) = Some k"
proof (induction s arbitrary: k)
  case Nil
  then show ?case by (cases sub) (auto split: if_splits)
next
  case (Cons c cs)
  show ?case
  proof (cases k)
    case 0
    then show ?thesis by (cases sub) auto
  next
    case (Suc j)
    with Cons.prems have n: "\<not> prefix sub (c # cs)" and j: "find_sub sub cs = Some j"
      by (auto split: if_splits)
    from find_sub_Some [OF j] have "prefix (take j cs @ sub) cs"
      by (auto simp: prefix_def) (metis append_assoc append_take_drop_id)
    with n have "\<not> prefix sub (c # take j cs @ sub)"
      by (metis Cons_prefix_Cons prefix_order.order_trans)
    with Cons.IH [OF j] Suc show ?thesis by simp
  qed
qed

lemma find_sub_None: "find_sub sub s = None \<longleftrightarrow> \<not> sublist sub s"
proof (induction s)
  case Nil
  then show ?case by auto
next
  case (Cons c cs)
  then show ?case by (auto simp: sublist_Cons_right)
qed

lemma contains_iff: "contains s sub \<longleftrightarrow> sublist sub s"
  by (simp add: contains_def find_sub_None)

lemma find_sub_Nil [simp]: "find_sub [] s = Some 0"
  by (cases s) auto

section \<open>Numbers in positional notation\<close>

text \<open>The digits \<open>std::ostream\<close> and \<open>std::to_string\<close> produce, most significant first.\<close>

fun base_digits :: "nat \<Rightarrow> nat \<Rightarrow> nat list" where
  "base_digits b n =
     (if b < 2 \<or> n < b then [n] else base_digits b (n div b) @ [n mod b])"

declare base_digits.simps [simp del]

definition digits_value :: "nat \<Rightarrow> nat list \<Rightarrow> nat" where
  "digits_value b ds = foldl (\<lambda>v d. v * b + d) 0 ds"

definition dec_string :: "nat \<Rightarrow> string" where
  "dec_string n = map (\<lambda>d. char_of (48 + d)) (base_digits 10 n)"

lemma base_digits_value: "digits_value b (base_digits b n) = n"
proof (induction b n rule: base_digits.induct)
  case (1 b n)
  then show ?case
    by (cases "b < 2 \<or> n < b") (simp_all add: base_digits.simps [of b n] digits_value_def)
qed

lemma base_digits_less: "2 \<le> b \<Longrightarrow> d \<in> set (base_digits b n) \<Longrightarrow> d < b"
proof (induction b n rule: base_digits.induct)
  case (1 b n)
  then show ?case
    by (cases "n < b") (auto simp: base_digits.simps [of b n])
qed

lemma base_digits_length_le:
  "2 \<le> b \<Longrightarrow> n < b ^ Suc k \<Longrightarrow> length (base_digits b n) \<le> Suc k"
proof (induction k arbitrary: n)
  case 0
  then show ?case by (simp add: base_digits.simps [of b n])
next
  case (Suc k)
  show ?case
  proof (cases "n < b")
    case True
    then show ?thesis by (simp add: base_digits.simps [of b n])
  next
    case False
    have "n div b < b ^ Suc k" using Suc.prems by (simp add: less_mult_imp_div_less mult.commute)
    with Suc.IH [of "n div b"] Suc.prems(1) False show ?thesis
      by (simp add: base_digits.simps [of b n])
  qed
qed

section \<open>Paths\<close>

definition slash :: char where
  "slash = CHR ''/''"

definition is_absolute :: "path \<Rightarrow> bool" where
  "is_absolute p = (case p of [] \<Rightarrow> False | c # _ \<Rightarrow> c = slash)"

definition filename :: "path \<Rightarrow> string" where
  "filename p = rev (takeWhile (\<lambda>c. c \<noteq> slash) (rev p))"

text \<open>\<open>p / q\<close>: an absolute right operand replaces the left one; a separator is added
  exactly when the left operand ends in a filename.\<close>

definition path_append :: "path \<Rightarrow> path \<Rightarrow> path" where
  "path_append p q =
     (if is_absolute q then q else if filename p = [] then p @ q else p @ slash # q)"

lemma filename_no_slash: "slash \<notin> set (filename p)"
  by (auto simp: filename_def dest: set_takeWhileD)

lemma takeWhile_no_slash:
  "slash \<notin> set n \<Longrightarrow> takeWhile (\<lambda>c. c \<noteq> slash) (rev n) = rev n"
  by (auto simp: takeWhile_eq_all_conv)

lemma takeWhile_stop_slash:
  "slash \<notin> set n \<Longrightarrow> takeWhile (\<lambda>c. c \<noteq> slash) (rev n @ slash # r) = rev n"
  by (subst takeWhile_append2) auto

lemma filename_append:
  assumes "slash \<notin> set n"
  shows "filename (path_append d n) = n"
proof -
  have rel: "\<not> is_absolute n"
    using assms by (cases n) (auto simp: is_absolute_def)
  show ?thesis
  proof (cases "filename d = []")
    case True
    then have "rev d = [] \<or> hd (rev d) = slash"
      by (cases "rev d") (auto simp: filename_def split: if_splits)
    then have "takeWhile (\<lambda>c. c \<noteq> slash) (rev n @ rev d) = rev n"
      using assms by (cases "rev d") (auto simp: takeWhile_no_slash takeWhile_stop_slash)
    with True rel show ?thesis by (simp add: path_append_def filename_def)
  next
    case False
    have "takeWhile (\<lambda>c. c \<noteq> slash) (rev n @ slash # rev d) = rev n"
      using assms by (rule takeWhile_stop_slash)
    with False rel show ?thesis by (simp add: path_append_def filename_def)
  qed
qed

end
