(* ===== verification/Host.thy ===== *)
theory Host
  imports Memory Cxx_Lib
begin

text \<open>
  The process and the operating system around it. \<open>proc\<close> is the state the loader changes
  through system calls and streams; \<open>os\<close> is the kernel and file system it calls, a
  parameter of every operation that reaches them. \<open>mmap_fresh\<close> and \<open>mmap_honours\<close>
  name what mmap(2) promises and what the loader's placement of segments relies on.
\<close>

section \<open>State\<close>

text \<open>A virtual memory area: start, length in bytes, protection.\<close>

type_synonym vma = "addr \<times> u64 \<times> u32"

record proc =
  mem :: memory
  vmas :: "vma list"
  fds :: nat \<comment> \<open>descriptors the process may still open\<close>
  map_file :: string \<comment> \<open>what was written to the map file\<close>

text \<open>
  The system: contents of readable files, what \<open>std::filesystem\<close> reports, the entries of a
  directory in iteration order, glob(3), the environment, the auxiliary vector, and the
  address the kernel picks for a mapping.
\<close>

record os =
  os_file :: "path \<Rightarrow> byte list option"
  os_exists :: "path \<Rightarrow> bool"
  os_is_directory :: "path \<Rightarrow> bool"
  os_is_regular_file :: "path \<Rightarrow> bool"
  os_listing :: "path \<Rightarrow> string list option"
  os_glob :: "string \<Rightarrow> path list"
  os_getenv :: "string \<Rightarrow> string option"
  os_getauxval :: "u64 \<Rightarrow> u64"
  os_pick :: "vma list \<Rightarrow> addr \<Rightarrow> u64 \<Rightarrow> addr option"

section \<open>System calls\<close>

definition open_file :: "os \<Rightarrow> path \<Rightarrow> proc \<Rightarrow> (byte list \<times> proc) option" where
  "open_file os p P =
     (if fds P = 0 then None
      else map_option (\<lambda>c. (c, P\<lparr>fds := fds P - 1\<rparr>)) (os_file os p))"

definition MAP_FAILED :: addr where
  "MAP_FAILED = - 1"

abbreviation PROT_READ :: u32 where "PROT_READ \<equiv> 1"
abbreviation PROT_WRITE :: u32 where "PROT_WRITE \<equiv> 2"
abbreviation PROT_EXEC :: u32 where "PROT_EXEC \<equiv> 4"

definition map_at :: "memory \<Rightarrow> addr \<Rightarrow> u64 \<Rightarrow> (nat \<Rightarrow> byte) \<Rightarrow> memory" where
  "map_at m p n f = (\<lambda>a. if unat (a - p) < unat n then Some (f (unat (a - p))) else m a)"

text \<open>mmap(2): a new area filled by \<open>f\<close>, zeros for anonymous memory.\<close>

definition mmap_with ::
  "os \<Rightarrow> (nat \<Rightarrow> byte) \<Rightarrow> addr \<Rightarrow> u64 \<Rightarrow> u32 \<Rightarrow> proc \<Rightarrow> addr \<times> proc" where
  "mmap_with os f hint n prot P =
     (if n = 0 then (MAP_FAILED, P)
      else case os_pick os (vmas P) hint n of
        None \<Rightarrow> (MAP_FAILED, P)
      | Some p \<Rightarrow>
          (p, P\<lparr>mem := map_at (mem P) p n f, vmas := vmas P @ [(p, n, prot)]\<rparr>))"

definition mmap_anon :: "os \<Rightarrow> addr \<Rightarrow> u64 \<Rightarrow> u32 \<Rightarrow> proc \<Rightarrow> addr \<times> proc" where
  "mmap_anon os = mmap_with os (\<lambda>_. 0)"

text \<open>A private mapping of a whole file; the rest of the last page reads as zero.\<close>

definition file_byte :: "byte list \<Rightarrow> nat \<Rightarrow> byte" where
  "file_byte c i = (if i < length c then c ! i else 0)"

definition mmap_file :: "os \<Rightarrow> byte list \<Rightarrow> u64 \<Rightarrow> u32 \<Rightarrow> proc \<Rightarrow> addr \<times> proc" where
  "mmap_file os c n prot = mmap_with os (file_byte c) 0 n prot"

lemma map_at_app [eval_simps]:
  "map_at m p n f a = (if unat (a - p) < unat n then Some (f (unat (a - p))) else m a)"
  by (simp add: map_at_def)

lemmas eval_host [eval_simps] = open_file_def mmap_with_def mmap_anon_def mmap_file_def
  file_byte_def MAP_FAILED_def page_floor_def page_ceil_def slot_ceil_def

section \<open>What the kernel promises\<close>

definition disjoint_area :: "addr \<Rightarrow> u64 \<Rightarrow> vma \<Rightarrow> bool" where
  "disjoint_area p n v =
     (case v of (s, k, _) \<Rightarrow> unat p + unat n \<le> unat s \<or> unat s + unat k \<le> unat p)"

text \<open>Without \<open>MAP_FIXED\<close> a new mapping never replaces an existing one and never wraps.\<close>

definition mmap_fresh :: "os \<Rightarrow> bool" where
  "mmap_fresh os \<longleftrightarrow> (\<forall>vs hint n p. os_pick os vs hint n = Some p \<longrightarrow>
     unat p + unat n < 2 ^ 64 \<and> list_all (disjoint_area p n) vs)"

text \<open>A free, page-aligned hint inside the user address space is taken as it is.\<close>

definition mmap_honours :: "os \<Rightarrow> bool" where
  "mmap_honours os \<longleftrightarrow> (\<forall>vs hint n. hint \<noteq> 0 \<longrightarrow> n \<noteq> 0 \<longrightarrow> unat hint mod 4096 = 0 \<longrightarrow>
     0x10000 \<le> unat hint \<longrightarrow> unat hint + unat n < 2 ^ 47 \<longrightarrow> list_all (disjoint_area hint n) vs \<longrightarrow>
     os_pick os vs hint n = Some hint)"

section \<open>Well-formed processes\<close>

text \<open>Memory is mapped exactly on the areas, and no area wraps.\<close>

definition in_area :: "addr \<Rightarrow> vma \<Rightarrow> bool" where
  "in_area a v = (case v of (s, n, _) \<Rightarrow> unat (a - s) < unat n)"

definition proc_wf :: "proc \<Rightarrow> bool" where
  "proc_wf P \<longleftrightarrow>
     (\<forall>a. mem P a \<noteq> None \<longleftrightarrow> (\<exists>v \<in> set (vmas P). in_area a v)) \<and>
     (\<forall>(s, n, _) \<in> set (vmas P). unat s + unat n < 2 ^ 64)"

lemma proc_wf_mem:
  "proc_wf P \<Longrightarrow> (\<And>a. m a = None \<longleftrightarrow> mem P a = None) \<Longrightarrow> proc_wf (P\<lparr>mem := m\<rparr>)"
  by (simp add: proc_wf_def)

lemma proc_wf_other [simp]:
  "proc_wf (P\<lparr>fds := k\<rparr>) = proc_wf P" "proc_wf (P\<lparr>map_file := f\<rparr>) = proc_wf P"
  by (simp_all add: proc_wf_def)

lemma mmap_with_wf:
  assumes "mmap_fresh os" and "proc_wf P" and "mmap_with os f hint n prot P = (p, P')"
  shows "proc_wf P'"
proof (cases "P' = P")
  case True
  with assms show ?thesis by simp
next
  case False
  with assms(3) have pick: "os_pick os (vmas P) hint n = Some p"
    and P': "P' = P\<lparr>mem := map_at (mem P) p n f, vmas := vmas P @ [(p, n, prot)]\<rparr>"
    by (auto simp: mmap_with_def split: if_splits option.splits)
  from pick assms(1) have "unat p + unat n < 2 ^ 64" by (auto simp: mmap_fresh_def)
  with assms(2) show ?thesis
    by (auto simp: P' proc_wf_def map_at_def in_area_def)
qed

text \<open>A mapping that succeeds covers bytes that were unmapped before and keeps all others.\<close>

lemma in_area_disjoint:
  assumes "disjoint_area p n v" and "in_area a v" and "unat p + unat n < 2 ^ 64"
    and "unat (fst v) + unat (fst (snd v)) < 2 ^ 64"
  shows "\<not> unat (a - p) < unat n"
proof -
  obtain s k r where v: "v = (s, k, r)" by (cases v) auto
  have "unat (a - p) < unat n \<longleftrightarrow> unat p \<le> unat a \<and> unat a < unat p + unat n"
    using assms(3) by (intro unat_offset_range) simp
  moreover have "unat (a - s) < unat k \<longleftrightarrow> unat s \<le> unat a \<and> unat a < unat s + unat k"
    using assms(4) v by (intro unat_offset_range) simp
  ultimately show ?thesis
    using assms(1,2) v by (auto simp: disjoint_area_def in_area_def)
qed

lemma mmap_with_fresh:
  assumes "mmap_fresh os" and "proc_wf P" and "mmap_with os f hint n prot P = (p, P')"
    and "p \<noteq> MAP_FAILED" and "unat (a - p) < unat n"
  shows "mem P a = None" "mem P' a = Some (f (unat (a - p)))"
proof -
  from assms(3,4) have pick: "os_pick os (vmas P) hint n = Some p"
    and P': "P' = P\<lparr>mem := map_at (mem P) p n f, vmas := vmas P @ [(p, n, prot)]\<rparr>"
    by (auto simp: mmap_with_def split: if_splits option.splits)
  show "mem P' a = Some (f (unat (a - p)))" using assms(5) by (simp add: P' map_at_def)
  show "mem P a = None"
  proof (rule ccontr)
    assume "mem P a \<noteq> None"
    with assms(2) obtain v where v: "v \<in> set (vmas P)" "in_area a v"
      by (auto simp: proc_wf_def)
    moreover from v(1) assms(2) have "unat (fst v) + unat (fst (snd v)) < 2 ^ 64"
      by (auto simp: proc_wf_def)
    moreover from v(1) pick assms(1) have "disjoint_area p n v" "unat p + unat n < 2 ^ 64"
      by (auto simp: mmap_fresh_def list_all_iff)
    ultimately show False using assms(5) in_area_disjoint by blast
  qed
qed

lemma mmap_with_frame:
  "mmap_with os f hint n prot P = (p, P') \<Longrightarrow> \<not> unat (a - p) < unat n \<Longrightarrow> mem P' a = mem P a"
  by (auto simp: mmap_with_def map_at_def split: if_splits option.splits)

lemma mmap_with_fields:
  "mmap_with os f hint n prot P = (p, P') \<Longrightarrow> fds P' = fds P \<and> map_file P' = map_file P"
  by (auto simp: mmap_with_def split: if_splits option.splits)

text \<open>What was mapped before a successful mapping stays outside of it and unchanged.\<close>

lemma mmap_with_keeps:
  assumes "mmap_fresh os" and "proc_wf P" and "mmap_with os f hint n prot P = (p, P')"
    and "p \<noteq> MAP_FAILED" and "mem P a \<noteq> None"
  shows "\<not> unat (a - p) < unat n" "mem P' a = mem P a"
proof -
  show out: "\<not> unat (a - p) < unat n"
  proof
    assume "unat (a - p) < unat n"
    from mmap_with_fresh(1) [OF assms(1-4) this] assms(5) show False by simp
  qed
  from mmap_with_frame [OF assms(3) out] show "mem P' a = mem P a" .
qed

end
