(* ===== verification/Elf.thy ===== *)
theory Elf
  imports Memory
begin

text \<open>
  The ELF64 structures the loader reads through \<open>reinterpret_cast\<close>, with the fields it
  uses, their byte offsets on x86-64, and the constants of \<open>elf.h\<close> it compares with.
\<close>

section \<open>Constants\<close>

abbreviation ET_EXEC :: u16 where "ET_EXEC \<equiv> 2"
abbreviation ET_DYN :: u16 where "ET_DYN \<equiv> 3"

abbreviation PT_LOAD :: u32 where "PT_LOAD \<equiv> 1"
abbreviation PT_DYNAMIC :: u32 where "PT_DYNAMIC \<equiv> 2"
abbreviation PT_TLS :: u32 where "PT_TLS \<equiv> 7"

abbreviation PF_X :: u32 where "PF_X \<equiv> 1"
abbreviation PF_W :: u32 where "PF_W \<equiv> 2"
abbreviation PF_R :: u32 where "PF_R \<equiv> 4"

abbreviation DT_NEEDED :: u64 where "DT_NEEDED \<equiv> 1"
abbreviation DT_PLTRELSZ :: u64 where "DT_PLTRELSZ \<equiv> 2"
abbreviation DT_STRTAB :: u64 where "DT_STRTAB \<equiv> 5"
abbreviation DT_SYMTAB :: u64 where "DT_SYMTAB \<equiv> 6"
abbreviation DT_RELA :: u64 where "DT_RELA \<equiv> 7"
abbreviation DT_RELASZ :: u64 where "DT_RELASZ \<equiv> 8"
abbreviation DT_RELAENT :: u64 where "DT_RELAENT \<equiv> 9"
abbreviation DT_STRSZ :: u64 where "DT_STRSZ \<equiv> 10"
abbreviation DT_SYMENT :: u64 where "DT_SYMENT \<equiv> 11"
abbreviation DT_INIT :: u64 where "DT_INIT \<equiv> 12"
abbreviation DT_FINI :: u64 where "DT_FINI \<equiv> 13"
abbreviation DT_RPATH :: u64 where "DT_RPATH \<equiv> 15"
abbreviation DT_REL :: u64 where "DT_REL \<equiv> 17"
abbreviation DT_PLTREL :: u64 where "DT_PLTREL \<equiv> 20"
abbreviation DT_JMPREL :: u64 where "DT_JMPREL \<equiv> 23"
abbreviation DT_INIT_ARRAY :: u64 where "DT_INIT_ARRAY \<equiv> 25"
abbreviation DT_FINI_ARRAY :: u64 where "DT_FINI_ARRAY \<equiv> 26"
abbreviation DT_INIT_ARRAYSZ :: u64 where "DT_INIT_ARRAYSZ \<equiv> 27"
abbreviation DT_FINI_ARRAYSZ :: u64 where "DT_FINI_ARRAYSZ \<equiv> 28"
abbreviation DT_RUNPATH :: u64 where "DT_RUNPATH \<equiv> 29"
abbreviation DT_RELACOUNT :: u64 where "DT_RELACOUNT \<equiv> 0x6ffffff9"

abbreviation SHN_UNDEF :: u16 where "SHN_UNDEF \<equiv> 0"
abbreviation STB_WEAK :: byte where "STB_WEAK \<equiv> 2"
abbreviation STT_TLS :: byte where "STT_TLS \<equiv> 6"

abbreviation R_X86_64_64 :: u64 where "R_X86_64_64 \<equiv> 1"
abbreviation R_X86_64_COPY :: u64 where "R_X86_64_COPY \<equiv> 5"
abbreviation R_X86_64_GLOB_DAT :: u64 where "R_X86_64_GLOB_DAT \<equiv> 6"
abbreviation R_X86_64_JUMP_SLOT :: u64 where "R_X86_64_JUMP_SLOT \<equiv> 7"
abbreviation R_X86_64_RELATIVE :: u64 where "R_X86_64_RELATIVE \<equiv> 8"
abbreviation R_X86_64_DTPMOD64 :: u64 where "R_X86_64_DTPMOD64 \<equiv> 16"
abbreviation R_X86_64_DTPOFF64 :: u64 where "R_X86_64_DTPOFF64 \<equiv> 17"
abbreviation R_X86_64_TPOFF64 :: u64 where "R_X86_64_TPOFF64 \<equiv> 18"
abbreviation R_X86_64_IRELATIVE :: u64 where "R_X86_64_IRELATIVE \<equiv> 37"

section \<open>Structures\<close>

record Elf64_Ehdr =
  e_type :: u16
  e_entry :: u64
  e_phoff :: u64
  e_phentsize :: u16
  e_phnum :: u16

record Elf64_Phdr =
  p_type :: u32
  p_flags :: u32
  p_offset :: u64
  p_vaddr :: u64
  p_filesz :: u64
  p_memsz :: u64

record Elf64_Dyn =
  d_tag :: u64
  d_un :: u64

record Elf64_Rela =
  r_offset :: u64
  r_info :: u64
  r_addend :: u64

record Elf64_Sym =
  st_name :: u32
  st_info :: byte
  st_other :: byte
  st_shndx :: u16
  st_value :: u64
  st_size :: u64

definition ELF64_R_SYM :: "u64 \<Rightarrow> u64" where
  "ELF64_R_SYM i = drop_bit 32 i"

definition ELF64_R_TYPE :: "u64 \<Rightarrow> u64" where
  "ELF64_R_TYPE i = i AND 0xffffffff"

definition ELF64_ST_BIND :: "byte \<Rightarrow> byte" where
  "ELF64_ST_BIND i = drop_bit 4 i"

definition ELF64_ST_TYPE :: "byte \<Rightarrow> byte" where
  "ELF64_ST_TYPE i = i AND 0xf"

section \<open>Reading structures from memory\<close>

definition field :: "byte list \<Rightarrow> nat \<Rightarrow> nat \<Rightarrow> 'a::len word" where
  "field bs off n = of_nat (le_nat (take n (drop off bs)))"

definition Ehdr_of :: "byte list \<Rightarrow> Elf64_Ehdr" where
  "Ehdr_of bs = \<lparr>e_type = field bs 16 2, e_entry = field bs 24 8, e_phoff = field bs 32 8,
                 e_phentsize = field bs 54 2, e_phnum = field bs 56 2\<rparr>"

definition Phdr_of :: "byte list \<Rightarrow> Elf64_Phdr" where
  "Phdr_of bs = \<lparr>p_type = field bs 0 4, p_flags = field bs 4 4, p_offset = field bs 8 8,
                 p_vaddr = field bs 16 8, p_filesz = field bs 32 8, p_memsz = field bs 40 8\<rparr>"

definition Dyn_of :: "byte list \<Rightarrow> Elf64_Dyn" where
  "Dyn_of bs = \<lparr>d_tag = field bs 0 8, d_un = field bs 8 8\<rparr>"

definition Rela_of :: "byte list \<Rightarrow> Elf64_Rela" where
  "Rela_of bs = \<lparr>r_offset = field bs 0 8, r_info = field bs 8 8, r_addend = field bs 16 8\<rparr>"

definition Sym_of :: "byte list \<Rightarrow> Elf64_Sym" where
  "Sym_of bs = \<lparr>st_name = field bs 0 4, st_info = field bs 4 1, st_other = field bs 5 1,
                st_shndx = field bs 6 2, st_value = field bs 8 8, st_size = field bs 16 8\<rparr>"

definition read_struct :: "(byte list \<Rightarrow> 'a) \<Rightarrow> nat \<Rightarrow> memory \<Rightarrow> addr \<Rightarrow> 'a res" where
  "read_struct decode n m a = rbind (read_bytes m a n) (\<lambda>bs. Inr (decode bs))"

abbreviation sizeof_Ehdr :: nat where "sizeof_Ehdr \<equiv> 64"
abbreviation sizeof_Phdr :: nat where "sizeof_Phdr \<equiv> 56"
abbreviation sizeof_Dyn :: nat where "sizeof_Dyn \<equiv> 16"
abbreviation sizeof_Rela :: nat where "sizeof_Rela \<equiv> 24"
abbreviation sizeof_Rel :: nat where "sizeof_Rel \<equiv> 16"
abbreviation sizeof_Sym :: nat where "sizeof_Sym \<equiv> 24"

definition read_Ehdr :: "memory \<Rightarrow> addr \<Rightarrow> Elf64_Ehdr res" where
  "read_Ehdr = read_struct Ehdr_of sizeof_Ehdr"

definition read_Phdr :: "memory \<Rightarrow> addr \<Rightarrow> Elf64_Phdr res" where
  "read_Phdr = read_struct Phdr_of sizeof_Phdr"

definition read_Dyn :: "memory \<Rightarrow> addr \<Rightarrow> Elf64_Dyn res" where
  "read_Dyn = read_struct Dyn_of sizeof_Dyn"

definition read_Rela :: "memory \<Rightarrow> addr \<Rightarrow> Elf64_Rela res" where
  "read_Rela = read_struct Rela_of sizeof_Rela"

definition read_Sym :: "memory \<Rightarrow> addr \<Rightarrow> Elf64_Sym res" where
  "read_Sym = read_struct Sym_of sizeof_Sym"

lemmas read_defs = read_Ehdr_def read_Phdr_def read_Dyn_def read_Rela_def read_Sym_def
  read_struct_def

lemmas eval_elf [eval_simps] = read_defs Ehdr_of_def Phdr_of_def Dyn_of_def Rela_of_def Sym_of_def
  field_def ELF64_R_SYM_def ELF64_R_TYPE_def ELF64_ST_BIND_def ELF64_ST_TYPE_def

section \<open>Encodings\<close>

text \<open>The bytes a tool writes for each structure; reading them back gives the structure.\<close>

definition bytes_of :: "nat \<Rightarrow> 'a::len word \<Rightarrow> byte list" where
  "bytes_of k w = le_bytes k (unat w)"

definition enc_Dyn :: "Elf64_Dyn \<Rightarrow> byte list" where
  "enc_Dyn d = bytes_of 8 (d_tag d) @ bytes_of 8 (d_un d)"

definition enc_Rela :: "Elf64_Rela \<Rightarrow> byte list" where
  "enc_Rela r = bytes_of 8 (r_offset r) @ bytes_of 8 (r_info r) @ bytes_of 8 (r_addend r)"

definition enc_Sym :: "Elf64_Sym \<Rightarrow> byte list" where
  "enc_Sym s = bytes_of 4 (st_name s) @ bytes_of 1 (st_info s) @ bytes_of 1 (st_other s) @
     bytes_of 2 (st_shndx s) @ bytes_of 8 (st_value s) @ bytes_of 8 (st_size s)"

lemma bytes_of_length [simp]: "length (bytes_of k w) = k"
  by (simp add: bytes_of_def)

lemma le_nat_bytes_of: "le_nat (bytes_of k (w :: 'a::len word)) = unat w mod 256 ^ k"
  by (simp add: bytes_of_def le_nat_le_bytes)

lemma field_bytes_of:
  assumes "take n (drop off bs) = bytes_of n (w :: 'a::len word)" and "8 * n = LENGTH('a)"
  shows "field bs off n = w"
proof -
  have "(256 :: nat) ^ n = 2 ^ (8 * n)" by (simp add: power_mult)
  then have "unat w < 256 ^ n" using unsigned_less [of w] assms(2) by simp
  then show ?thesis by (simp add: field_def assms(1) le_nat_bytes_of)
qed

lemma Dyn_of_enc: "Dyn_of (enc_Dyn d) = d"
  by (cases d) (simp add: Dyn_of_def enc_Dyn_def field_bytes_of)

lemma Rela_of_enc: "Rela_of (enc_Rela r) = r"
  by (cases r) (simp add: Rela_of_def enc_Rela_def field_bytes_of)

lemma Sym_of_enc: "Sym_of (enc_Sym s) = s"
  by (cases s) (simp add: Sym_of_def enc_Sym_def field_bytes_of)

end
