(* ===== verification/Utils.thy ===== *)
theory Utils
  imports Elf Cxx_Lib
begin

text \<open>
  \<open>utils.h\<close> and \<open>utils.cc\<close>: splitting a string, hexadecimal output, and the printers
  of relocations and symbols. The printers matter to the loader's behaviour although logging
  is off: the arguments of \<open>LOG\<close> are evaluated, so a printer that aborts or faults stops
  the load.
\<close>

section \<open>SplitWith\<close>

partial_function (option) SplitWith_loop ::
  "string \<Rightarrow> string \<Rightarrow> string list \<Rightarrow> string list option" where
  "SplitWith_loop str delimiter ret =
     (case find_sub delimiter str of
        None \<Rightarrow> Some ret
      | Some pos \<Rightarrow>
          SplitWith_loop (drop (pos + length delimiter) str) delimiter (ret @ [take pos str]))"

definition SplitWith :: "string \<Rightarrow> string \<Rightarrow> string list option" where
  "SplitWith str delimiter = SplitWith_loop str delimiter []"

section \<open>HexString\<close>

definition hex_digit :: "nat \<Rightarrow> char" where
  "hex_digit d = (if d < 10 then char_of (48 + d) else char_of (55 + d))"

text \<open>The two templates: for numbers of \<open>sz\<close> bytes and for pointers; \<open>- 1\<close> is the default.\<close>

definition hex_out :: "int \<Rightarrow> nat \<Rightarrow> string" where
  "hex_out width n =
     (let ds = map hex_digit (base_digits 16 n)
      in ''0x'' @ replicate (nat width - length ds) (CHR ''0'') @ ds)"

definition HexString :: "nat \<Rightarrow> nat \<Rightarrow> int \<Rightarrow> string" where
  "HexString sz num len = hex_out (if len = - 1 then int (sz div 2) else len) num"

definition HexString_ptr :: "addr \<Rightarrow> int \<Rightarrow> string" where
  "HexString_ptr p len = hex_out (if len = - 1 then 16 else len) (unat p)"

definition HexString_const_ptr :: "addr \<Rightarrow> int \<Rightarrow> string" where
  "HexString_const_ptr p len = HexString_ptr p len"

section \<open>Printers\<close>

definition reloc_names :: "(nat \<times> string) list" where
  "reloc_names =
    [(0, ''R_X86_64_NONE''), (1, ''R_X86_64_64''), (2, ''R_X86_64_PC32''),
     (3, ''R_X86_64_GOT32''), (4, ''R_X86_64_PLT32''), (5, ''R_X86_64_COPY''),
     (6, ''R_X86_64_GLOB_DAT''), (7, ''R_X86_64_JUMP_SLOT''), (8, ''R_X86_64_RELATIVE''),
     (9, ''R_X86_64_GOTPCREL''), (10, ''R_X86_64_32''), (11, ''R_X86_64_32S''),
     (12, ''R_X86_64_16''), (13, ''R_X86_64_PC16''), (14, ''R_X86_64_8''),
     (15, ''R_X86_64_PC8''), (16, ''R_X86_64_DTPMOD64''), (17, ''R_X86_64_DTPOFF64''),
     (18, ''R_X86_64_TPOFF64''), (19, ''R_X86_64_TLSGD''), (20, ''R_X86_64_TLSLD''),
     (21, ''R_X86_64_DTPOFF32''), (22, ''R_X86_64_GOTTPOFF''), (23, ''R_X86_64_TPOFF32''),
     (24, ''R_X86_64_PC64''), (25, ''R_X86_64_GOTOFF64''), (26, ''R_X86_64_GOTPC32''),
     (27, ''R_X86_64_GOT64''), (28, ''R_X86_64_GOTPCREL64''), (29, ''R_X86_64_GOTPC64''),
     (30, ''R_X86_64_GOTPLT64''), (31, ''R_X86_64_PLTOFF64''), (32, ''R_X86_64_SIZE32''),
     (33, ''R_X86_64_SIZE64''), (34, ''R_X86_64_GOTPC32_TLSDESC''), (36, ''R_X86_64_TLSDESC''),
     (37, ''R_X86_64_IRELATIVE''), (38, ''R_X86_64_RELATIVE64''), (41, ''R_X86_64_GOTPCRELX''),
     (42, ''R_X86_64_REX_GOTPCRELX''), (43, ''R_X86_64_NUM'')]"

definition ShowRelocationType :: "u32 \<Rightarrow> string" where
  "ShowRelocationType type =
     (case map_of reloc_names (unat type) of
        Some name \<Rightarrow> name
      | None \<Rightarrow> HexString 4 (unat type) 4)"

definition ShowRela :: "Elf64_Rela \<Rightarrow> string" where
  "ShowRela r =
     ''Elf_Rela{r_offset='' @ HexString 8 (unat (r_offset r)) 8 @
     '', r_info='' @ HexString 8 (unat (r_info r)) 8 @
     '', ELF64_R_SYM(r.r_info)='' @ HexString 8 (unat (ELF64_R_SYM (r_info r))) 4 @
     '', ELF64_R_TYPE(r.r_info)='' @ ShowRelocationType (ucast (ELF64_R_TYPE (r_info r))) @
     '', r_addend='' @ HexString 8 (unat (r_addend r)) 8 @ ''}''"

definition ShowSTB :: "byte \<Rightarrow> string" where
  "ShowSTB bind =
     (if bind = 0 then ''STB_LOCAL''
      else if bind = 1 then ''STB_GLOBAL''
      else if bind = 2 then ''STB_WEAK''
      else if bind = 3 then ''STB_NUM''
      else if bind = 10 then ''STB_GNU_UNIQUE''
      else if bind = 12 then ''STB_HIOS''
      else if bind = 13 then ''STB_LOPROC''
      else if bind = 15 then ''STB_HIPROC''
      else dec_string (unat bind))"

definition ShowSTT :: "byte \<Rightarrow> string res" where
  "ShowSTT type =
     (if type = 0 then Inr ''STT_NOTYPE''
      else if type = 1 then Inr ''STT_OBJECT''
      else if type = 2 then Inr ''STT_FUNC''
      else if type = 3 then Inr ''STT_SECTION''
      else if type = 4 then Inr ''STT_FILE''
      else if type = 5 then Inr ''STT_COMMON''
      else if type = 6 then Inr ''STT_TLS''
      else if type = 7 then Inr ''STT_NUM''
      else if type = 10 then Inr ''STT_GNU_IFUNC''
      else Inl Aborted)"

text \<open>\<open>st_other\<close> is an \<open>unsigned char\<close>, so the stream writes it as one character.\<close>

definition ShowSym :: "memory \<Rightarrow> Elf64_Sym \<Rightarrow> addr \<Rightarrow> string res" where
  "ShowSym m s strtab =
     rbind (read_cstr m (strtab + ucast (st_name s))) (\<lambda>name.
     rbind (ShowSTT (ELF64_ST_TYPE (st_info s))) (\<lambda>type.
     Inr (''Elf64_Sym{st_name='' @ name @
       '', ELF64_ST_BIND(st_info)='' @ ShowSTB (ELF64_ST_BIND (st_info s)) @
       '', ELF64_ST_TYPE(st_info)='' @ type @
       '', st_other='' @ [char_of (unat (st_other s))] @
       '', st_shndx='' @ dec_string (unat (st_shndx s)) @
       '', st_value='' @ HexString 8 (unat (st_value s)) (- 1) @
       '', st_size='' @ HexString 8 (unat (st_size s)) (- 1) @ ''}'')))"

section \<open>SplitWith returns, and what it returns\<close>

lemma SplitWith_loop_shape:
  assumes "d \<noteq> []"
  shows "\<exists>ps rest. SplitWith_loop s d ret = Some (ret @ ps) \<and>
           s = concat (map (\<lambda>p. p @ d) ps) @ rest \<and>
           list_all (\<lambda>p. find_sub d (p @ d) = Some (length p)) ps \<and> find_sub d rest = None"
proof (induction "length s" arbitrary: s ret rule: less_induct)
  case less
  show ?case
  proof (cases "find_sub d s")
    case None
    then have "SplitWith_loop s d ret = Some (ret @ [])" by (simp add: SplitWith_loop.simps [of s])
    with None show ?thesis by (intro exI [of _ "[]"] exI [of _ s]) simp
  next
    case (Some pos)
    let ?s' = "drop (pos + length d) s"
    from find_sub_Some [OF Some] have le: "pos + length d \<le> length s"
      and pre: "prefix d (drop pos s)" by auto
    from le assms have "length ?s' < length s" by (cases d) auto
    from less [OF this] obtain ps rest
      where r: "SplitWith_loop ?s' d (ret @ [take pos s]) = Some ((ret @ [take pos s]) @ ps)"
        and s': "?s' = concat (map (\<lambda>p. p @ d) ps) @ rest" 
        and n: "list_all (\<lambda>p. find_sub d (p @ d) = Some (length p)) ps" "find_sub d rest = None"
      by blast
    from pre obtain zs where zs: "drop pos s = d @ zs" by (auto simp: prefix_def)
    then have "?s' = zs" by (metis add.commute append_eq_conv_conj drop_drop)
    with zs have "drop pos s = d @ ?s'" by simp
    then have "s = take pos s @ d @ ?s'" by (metis append_take_drop_id)
    with s' have "s = concat (map (\<lambda>p. p @ d) (take pos s # ps)) @ rest" by simp
    moreover from r Some have "SplitWith_loop s d ret = Some (ret @ take pos s # ps)"
      by (simp add: SplitWith_loop.simps [of s])
    moreover have "find_sub d (take pos s @ d) = Some (length (take pos s))"
      using find_sub_cut [OF Some] le by simp
    ultimately show ?thesis using n
      by (intro exI [of _ "take pos s # ps"] exI [of _ rest]) simp
  qed
qed

lemma find_sub_char:
  assumes "c \<notin> set p"
  shows "find_sub [c] (p @ c # rest) = Some (length p)" "find_sub [c] p = None"
  using assms by (induction p) auto

lemma SplitWith_loop_pieces:
  assumes "\<forall>p \<in> set ps. c \<notin> set p" and "c \<notin> set rest"
  shows "SplitWith_loop (concat (map (\<lambda>p. p @ [c]) ps) @ rest) [c] ret = Some (ret @ ps)"
  using assms
proof (induction ps arbitrary: ret)
  case Nil
  then show ?case by (simp add: SplitWith_loop.simps find_sub_char)
next
  case (Cons p ps)
  then show ?case
    by (simp add: SplitWith_loop.simps [of "p @ c # concat (map (\<lambda>p. p @ [c]) ps) @ rest"]
        find_sub_char)
qed

lemma SplitWith_empty_loops: "SplitWith_loop s [] ret = None"
proof (rule ccontr)
  assume "SplitWith_loop s [] ret \<noteq> None"
  then obtain r where "SplitWith_loop s [] ret = Some r" by auto
  then have "([] :: string) \<noteq> []"
    by (rule SplitWith_loop.raw_induct [where P = "\<lambda>s d ret r. d \<noteq> []", rotated])
       (auto split: option.splits)
  then show False by simp
qed

section \<open>Reading hexadecimal output back\<close>

definition hex_char_value :: "char \<Rightarrow> nat" where
  "hex_char_value c = (let n = of_char c in if n < 58 then n - 48 else n - 55)"

definition hex_value :: "string \<Rightarrow> nat" where
  "hex_value s = digits_value 16 (map hex_char_value (drop 2 s))"

lemma hex_char_value_digit: "d < 16 \<Longrightarrow> hex_char_value (hex_digit d) = d"
  by (auto simp: hex_char_value_def hex_digit_def)

lemma map_hex_char_value:
  "map hex_char_value (map hex_digit (base_digits 16 n)) = base_digits 16 n"
  by (auto simp: hex_char_value_digit base_digits_less intro!: map_idI)

lemma digits_value_zeros: "digits_value b (replicate k 0 @ ds) = digits_value b ds"
  by (induction k) (simp_all add: digits_value_def)

lemma hex_value_out: "hex_value (hex_out w n) = n"
proof -
  have "hex_char_value (CHR ''0'') = 0" by (simp add: hex_char_value_def)
  then show ?thesis
    unfolding hex_value_def hex_out_def Let_def
    by (simp only: append.simps drop_Suc_Cons drop_0 numeral_2_eq_2 map_append map_replicate
        map_hex_char_value digits_value_zeros base_digits_value)
qed

lemma hex_out_length: "length (hex_out w n) = 2 + max (nat w) (length (base_digits 16 n))"
  by (simp add: hex_out_def Let_def)

section \<open>Properties\<close>

text \<open>
  C31: \<open>SplitWith\<close> returns exactly when the delimiter is not empty; with an empty delimiter
  \<open>str.find\<close> always succeeds at position 0 and the loop never ends. What it returns are the
  pieces that are followed by a delimiter, each up to its first delimiter. The text after the
  last delimiter is dropped, so a string without delimiter has no pieces and the last directory
  of \<open>PATH\<close> is never searched by \<open>main\<close>.
\<close>

theorem SplitWith_pieces:
  "if delimiter = [] then SplitWith str delimiter = None
   else \<exists>pieces rest. SplitWith str delimiter = Some pieces \<and>
     str = concat (map (\<lambda>p. p @ delimiter) pieces) @ rest \<and>
     list_all (\<lambda>p. find_sub delimiter (p @ delimiter) = Some (length p)) pieces \<and>
     find_sub delimiter rest = None"
  using SplitWith_loop_shape [of delimiter str "[]"]
  by (simp add: SplitWith_def SplitWith_empty_loops)


end
