(* ===== verification/Sample_Host.thy ===== *)
theory Sample_Host
  imports Host Elf
begin

text \<open>
  A small concrete system the witnesses run on: a kernel that takes a free hint and otherwise
  the first free of a few high addresses, a file system given by an association list, and
  encoders for ELF files.
\<close>

definition fits :: "vma list \<Rightarrow> u64 \<Rightarrow> addr \<Rightarrow> bool" where
  "fits vs n p = (unat p + unat n < 2 ^ 64 \<and> list_all (disjoint_area p n) vs)"

definition first_fit :: "vma list \<Rightarrow> addr \<Rightarrow> u64 \<Rightarrow> addr option" where
  "first_fit vs hint n =
     find (fits vs n) ((if hint = 0 then [] else [hint]) @
       [0x7f0000000000, 0x7f0001000000, 0x7f0002000000, 0x7f0003000000])"

definition host_with :: "(path \<times> byte list) list \<Rightarrow> os" where
  "host_with files =
     \<lparr>os_file = map_of files, os_exists = (\<lambda>p. map_of files p \<noteq> None),
      os_is_directory = (\<lambda>p. p = ''/lib''), os_is_regular_file = (\<lambda>p. map_of files p \<noteq> None),
      os_listing = (\<lambda>p. if p = ''/lib'' then Some (map (filename \<circ> fst) files) else None),
      os_glob = (\<lambda>_. []), os_getenv = (\<lambda>_. None), os_getauxval = (\<lambda>_. 1),
      os_pick = first_fit\<rparr>"

definition empty_proc :: "nat \<Rightarrow> proc" where
  "empty_proc n = \<lparr>mem = (\<lambda>_. None), vmas = [], fds = n, map_file = []\<rparr>"

lemma host_with_fresh: "mmap_fresh (host_with files)"
  by (auto simp: mmap_fresh_def host_with_def first_fit_def fits_def find_Some_iff)

lemma host_with_honours: "mmap_honours (host_with files)"
  by (auto simp: mmap_honours_def host_with_def first_fit_def fits_def)

lemma empty_proc_wf: "proc_wf (empty_proc n)"
  by (simp add: proc_wf_def empty_proc_def)

lemma host_with_sel [simp, eval_simps]:
  "os_file (host_with files) = map_of files"
  "os_exists (host_with files) p = (map_of files p \<noteq> None)"
  "os_is_directory (host_with files) p = (p = ''/lib'')"
  "os_listing (host_with files) p =
     (if p = ''/lib'' then Some (map (filename \<circ> fst) files) else None)"
  "os_getenv (host_with files) v = None"
  "os_getauxval (host_with files) t = 1"
  "os_pick (host_with files) = first_fit"
  by (simp_all add: host_with_def)

lemma empty_proc_sel [simp]:
  "mem (empty_proc n) = (\<lambda>_. None)" "vmas (empty_proc n) = []" "fds (empty_proc n) = n"
  "map_file (empty_proc n) = []"
  by (simp_all add: empty_proc_def)

lemmas eval_sample [eval_simps] = first_fit_def fits_def disjoint_area_def

section \<open>Encoding ELF files\<close>

definition enc_Ehdr :: "Elf64_Ehdr \<Rightarrow> byte list" where
  "enc_Ehdr h = replicate 16 0 @ bytes_of 2 (e_type h) @ replicate 6 0 @ bytes_of 8 (e_entry h) @
     bytes_of 8 (e_phoff h) @ replicate 14 0 @ bytes_of 2 (e_phentsize h) @
     bytes_of 2 (e_phnum h) @ replicate 6 0"

definition enc_Phdr :: "Elf64_Phdr \<Rightarrow> byte list" where
  "enc_Phdr p = bytes_of 4 (p_type p) @ bytes_of 4 (p_flags p) @ bytes_of 8 (p_offset p) @
     bytes_of 8 (p_vaddr p) @ replicate 8 0 @ bytes_of 8 (p_filesz p) @ bytes_of 8 (p_memsz p) @
     replicate 8 0"

lemma Ehdr_of_enc: "Ehdr_of (enc_Ehdr h) = h"
  by (cases h) (simp add: Ehdr_of_def enc_Ehdr_def field_bytes_of)

lemma Phdr_of_enc: "Phdr_of (enc_Phdr p) = p"
  by (cases p) (simp add: Phdr_of_def enc_Phdr_def field_bytes_of)

text \<open>A position-dependent executable with one segment of 4 file bytes and 8 memory bytes.\<close>

definition exec_seg :: Elf64_Phdr where
  "exec_seg = \<lparr>p_type = PT_LOAD, p_flags = PF_R OR PF_X, p_offset = 120, p_vaddr = 0x10010,
     p_filesz = 4, p_memsz = 8\<rparr>"

definition exec_file :: "byte list" where
  "exec_file = enc_Ehdr \<lparr>e_type = ET_EXEC, e_entry = 0x10010, e_phoff = 64, e_phentsize = 56,
       e_phnum = 1\<rparr> @ enc_Phdr exec_seg @ [0xde, 0xad, 0xbe, 0xef]"

lemma exec_file_eq:
  "exec_file =
    [0, 0, 0, 0, 0, 0, 0, 0, 0, 0, 0, 0, 0, 0, 0, 0, 2, 0, 0, 0, 0, 0, 0, 0, 0x10, 0, 1, 0, 0, 0, 0, 0,
     64, 0, 0, 0, 0, 0, 0, 0, 0, 0, 0, 0, 0, 0, 0, 0, 0, 0, 0, 0, 0, 0, 56, 0, 1, 0, 0, 0, 0, 0, 0, 0,
     1, 0, 0, 0, 5, 0, 0, 0, 120, 0, 0, 0, 0, 0, 0, 0, 0x10, 0, 1, 0, 0, 0, 0, 0, 0, 0, 0, 0, 0, 0, 0, 0,
     4, 0, 0, 0, 0, 0, 0, 0, 8, 0, 0, 0, 0, 0, 0, 0, 0, 0, 0, 0, 0, 0, 0, 0, 0xde, 0xad, 0xbe, 0xef]"
  by (simp add: exec_file_def enc_Ehdr_def enc_Phdr_def exec_seg_def bytes_of_def eval_simps)

text \<open>A position-independent file: one segment that is its dynamic section, with a string table.\<close>

definition dyn_seg :: Elf64_Phdr where
  "dyn_seg = \<lparr>p_type = PT_LOAD, p_flags = PF_R, p_offset = 176, p_vaddr = 0x10,
     p_filesz = 16, p_memsz = 16\<rparr>"

definition dyn_file :: "byte list" where
  "dyn_file = enc_Ehdr \<lparr>e_type = ET_DYN, e_entry = 0x10, e_phoff = 64, e_phentsize = 56,
       e_phnum = 2\<rparr> @ enc_Phdr dyn_seg @ enc_Phdr (dyn_seg\<lparr>p_type := PT_DYNAMIC\<rparr>) @
     enc_Dyn \<lparr>d_tag = DT_STRTAB, d_un = 0x10\<rparr>"

lemma dyn_file_eq:
  "dyn_file =
    [0, 0, 0, 0, 0, 0, 0, 0, 0, 0, 0, 0, 0, 0, 0, 0, 3, 0, 0, 0, 0, 0, 0, 0, 16, 0, 0, 0, 0, 0, 0, 0,
     64, 0, 0, 0, 0, 0, 0, 0, 0, 0, 0, 0, 0, 0, 0, 0, 0, 0, 0, 0, 0, 0, 56, 0, 2, 0, 0, 0, 0, 0, 0, 0,
     1, 0, 0, 0, 4, 0, 0, 0, 176, 0, 0, 0, 0, 0, 0, 0, 16, 0, 0, 0, 0, 0, 0, 0, 0, 0, 0, 0, 0, 0, 0, 0,
     16, 0, 0, 0, 0, 0, 0, 0, 16, 0, 0, 0, 0, 0, 0, 0, 0, 0, 0, 0, 0, 0, 0, 0, 2, 0, 0, 0, 4, 0, 0, 0,
     176, 0, 0, 0, 0, 0, 0, 0, 16, 0, 0, 0, 0, 0, 0, 0, 0, 0, 0, 0, 0, 0, 0, 0, 16, 0, 0, 0, 0, 0, 0, 0,
     16, 0, 0, 0, 0, 0, 0, 0, 0, 0, 0, 0, 0, 0, 0, 0, 5, 0, 0, 0, 0, 0, 0, 0, 16, 0, 0, 0, 0, 0, 0, 0]"
  by (simp add: dyn_file_def enc_Ehdr_def enc_Phdr_def enc_Dyn_def dyn_seg_def bytes_of_def
      eval_simps)

end
