(* ===== verification/Elf_Binary.thy ===== *)
theory Elf_Binary
  imports Host Utils Sample_Host
begin

text \<open>
  \<open>class ELFBinary\<close> of \<open>dyn_loader.h\<close> and \<open>dyn_loader.cc\<close>: opening and mapping a
  file, placing its \<open>PT_LOAD\<close> segments, and reading the dynamic section. A null pointer is
  address 0. \<open>file_tls\<close> has no initial value in the source and is \<open>None\<close> until
  the constructor meets a \<open>PT_TLS\<close> header.
\<close>

record ELFBinary =
  bin_path :: path
  file_base_addr :: addr
  base_addr :: addr
  end_addr :: addr
  ehdr :: Elf64_Ehdr
  rela :: addr
  jmprel :: addr
  relas :: "Elf64_Rela list"
  pltrelas :: "Elf64_Rela list"
  relasz :: u64
  relacount :: u64
  relaent :: u64
  pltrelsz :: u64
  pltrel :: u64
  pltrelent :: u64
  init :: u64
  fini :: u64
  init_arraysz :: u64
  init_array :: u64
  fini_arraysz :: u64
  fini_array :: u64
  symtab :: addr
  symtabs :: "Elf64_Sym list"
  syment :: u64
  file_phdrs :: "Elf64_Phdr list"
  file_dynamic :: Elf64_Phdr
  has_tls :: bool
  file_tls :: "Elf64_Phdr option"
  neededs :: "string list"
  runpath :: "path option"
  rpath :: "path option"
  strtab :: addr
  strsz :: u64

section \<open>The constructor\<close>

definition zero_Phdr :: Elf64_Phdr where
  "zero_Phdr = \<lparr>p_type = 0, p_flags = 0, p_offset = 0, p_vaddr = 0, p_filesz = 0, p_memsz = 0\<rparr>"

text \<open>The members after their default initialisers, with the mapped file and its header.\<close>

definition new_ELFBinary :: "path \<Rightarrow> addr \<Rightarrow> Elf64_Ehdr \<Rightarrow> ELFBinary" where
  "new_ELFBinary p file_base eh =
     \<lparr>bin_path = p, file_base_addr = file_base, base_addr = 0, end_addr = 0, ehdr = eh,
      rela = 0, jmprel = 0, relas = [], pltrelas = [], relasz = 0, relacount = 0,
      relaent = 0, pltrelsz = 0, pltrel = 0, pltrelent = 0, init = 0, fini = 0,
      init_arraysz = 0, init_array = 0, fini_arraysz = 0, fini_array = 0, symtab = 0,
      symtabs = [], syment = 0, file_phdrs = [], file_dynamic = zero_Phdr,
      has_tls = False, file_tls = None, neededs = [], runpath = None, rpath = None,
      strtab = 0, strsz = 0\<rparr>"

text \<open>\<open>i * e_phentsize\<close> is an \<open>int\<close> product, widened when it is added to the pointer.\<close>

definition phdr_addr :: "ELFBinary \<Rightarrow> nat \<Rightarrow> addr" where
  "phdr_addr b i = file_base_addr b + e_phoff (ehdr b) +
     scast (of_nat i * ucast (e_phentsize (ehdr b)) :: u32)"

definition add_phdr :: "ELFBinary \<Rightarrow> Elf64_Phdr \<Rightarrow> ELFBinary" where
  "add_phdr b ph =
     (let b = b\<lparr>file_phdrs := file_phdrs b @ [ph]\<rparr>
      in if p_type ph = PT_DYNAMIC then b\<lparr>file_dynamic := ph\<rparr>
         else if p_type ph = PT_TLS then b\<lparr>has_tls := True, file_tls := Some ph\<rparr>
         else b)"

definition ELFBinary_ctor :: "os \<Rightarrow> path \<Rightarrow> proc \<Rightarrow> (ELFBinary \<times> proc) res" where
  "ELFBinary_ctor os path P =
     (case open_file os path P of
        None \<Rightarrow> Inl (ExitWith 1)
      | Some (content, P) \<Rightarrow>
          (let size = of_nat (length content) :: u64
           in rbind (CHECK (size > 8 + 16)) (\<lambda>_.
              let mapped_size = page_ceil size;
                  (p, P) = mmap_file os content mapped_size
                             (PROT_READ OR PROT_WRITE OR PROT_EXEC) P
              in rbind (CHECK (p \<noteq> MAP_FAILED)) (\<lambda>_.
                 rbind (read_Ehdr (mem P) p) (\<lambda>eh.
                 rbind (foldR (\<lambda>b i. rbind (read_Phdr (mem P) (phdr_addr b i))
                                       (\<lambda>ph. Inr (add_phdr b ph)))
                          (new_ELFBinary path p eh) [0..<unat (e_phnum eh)]) (\<lambda>b.
                 Inr (b, P)))))))"

section \<open>ParseDynamic\<close>

definition dyn_addr :: "ELFBinary \<Rightarrow> nat \<Rightarrow> addr" where
  "dyn_addr b i = base_addr b + p_vaddr (file_dynamic b) + of_nat sizeof_Dyn * of_nat i"

definition parse_strtab :: "memory \<Rightarrow> ELFBinary \<Rightarrow> nat \<Rightarrow> ELFBinary res" where
  "parse_strtab m b i =
     rbind (read_u64 m (dyn_addr b i)) (\<lambda>tag.
       if tag = DT_STRTAB then
         rbind (read_u64 m (dyn_addr b i + 8)) (\<lambda>v. Inr (b\<lparr>strtab := v + base_addr b\<rparr>))
       else if tag = DT_STRSZ then
         rbind (read_u64 m (dyn_addr b i + 8)) (\<lambda>v. Inr (b\<lparr>strsz := v\<rparr>))
       else Inr b)"

definition dyn_tags :: "u64 list" where
  "dyn_tags = [DT_NEEDED, DT_RUNPATH, DT_RPATH, DT_RELA, DT_RELASZ, DT_RELAENT, DT_RELACOUNT,
     DT_JMPREL, DT_PLTRELSZ, DT_PLTREL, DT_SYMTAB, DT_SYMENT, DT_INIT, DT_FINI, DT_INIT_ARRAY,
     DT_INIT_ARRAYSZ, DT_FINI_ARRAY, DT_FINI_ARRAYSZ]"

definition set_dyn :: "memory \<Rightarrow> ELFBinary \<Rightarrow> u64 \<Rightarrow> u64 \<Rightarrow> ELFBinary res" where
  "set_dyn m b tag v =
     (if tag = DT_NEEDED then
        rbind (read_cstr m (strtab b + v)) (\<lambda>needed. Inr (b\<lparr>neededs := neededs b @ [needed]\<rparr>))
      else if tag = DT_RUNPATH then
        rbind (read_cstr m (strtab b + v)) (\<lambda>s. Inr (b\<lparr>runpath := Some s\<rparr>))
      else if tag = DT_RPATH then
        rbind (read_cstr m (strtab b + v)) (\<lambda>s. Inr (b\<lparr>rpath := Some s\<rparr>))
      else if tag = DT_RELA then Inr (b\<lparr>rela := base_addr b + v\<rparr>)
      else if tag = DT_RELASZ then Inr (b\<lparr>relasz := v\<rparr>)
      else if tag = DT_RELAENT then Inr (b\<lparr>relaent := v\<rparr>)
      else if tag = DT_RELACOUNT then Inr (b\<lparr>relacount := v\<rparr>)
      else if tag = DT_JMPREL then Inr (b\<lparr>jmprel := base_addr b + v\<rparr>)
      else if tag = DT_PLTRELSZ then Inr (b\<lparr>pltrelsz := v\<rparr>)
      else if tag = DT_PLTREL then
        rbind (CHECK (v = DT_RELA \<or> v = DT_REL)) (\<lambda>_.
          Inr (b\<lparr>pltrel := v,
                 pltrelent := of_nat (if v = DT_RELA then sizeof_Rela else sizeof_Rel)\<rparr>))
      else if tag = DT_SYMTAB then Inr (b\<lparr>symtab := base_addr b + v\<rparr>)
      else if tag = DT_SYMENT then
        rbind (CHECK (v = of_nat sizeof_Sym)) (\<lambda>_. Inr (b\<lparr>syment := v\<rparr>))
      else if tag = DT_INIT then Inr (b\<lparr>init := v\<rparr>)
      else if tag = DT_FINI then Inr (b\<lparr>fini := v\<rparr>)
      else if tag = DT_INIT_ARRAY then Inr (b\<lparr>init_array := v\<rparr>)
      else if tag = DT_INIT_ARRAYSZ then Inr (b\<lparr>init_arraysz := v\<rparr>)
      else if tag = DT_FINI_ARRAY then Inr (b\<lparr>fini_array := v\<rparr>)
      else if tag = DT_FINI_ARRAYSZ then Inr (b\<lparr>fini_arraysz := v\<rparr>)
      else Inr b)"

definition parse_dyn :: "memory \<Rightarrow> ELFBinary \<Rightarrow> nat \<Rightarrow> ELFBinary res" where
  "parse_dyn m b i =
     rbind (read_u64 m (dyn_addr b i)) (\<lambda>tag.
       if tag \<notin> set dyn_tags then Inr b
       else rbind (read_u64 m (dyn_addr b i + 8)) (\<lambda>v. set_dyn m b tag v))"

definition read_relas :: "memory \<Rightarrow> addr \<Rightarrow> nat \<Rightarrow> Elf64_Rela list res" where
  "read_relas m a n = mapR (\<lambda>i. read_Rela m (a + of_nat sizeof_Rela * of_nat i)) [0..<n]"

definition parse_relas :: "memory \<Rightarrow> ELFBinary \<Rightarrow> ELFBinary res" where
  "parse_relas m b =
     (if rela b \<noteq> 0 then
        if relaent b = 0 then Inl Sigfpe
        else rbind (CHECK (relasz b mod relaent b = 0)) (\<lambda>_.
             rbind (read_relas m (rela b) (unat (relasz b div relaent b))) (\<lambda>rs.
             Inr (b\<lparr>relas := relas b @ rs\<rparr>)))
      else Inr b)"

definition parse_pltrelas :: "memory \<Rightarrow> ELFBinary \<Rightarrow> ELFBinary res" where
  "parse_pltrelas m b =
     (if jmprel b \<noteq> 0 then
        if pltrelent b = 0 then Inl Sigfpe
        else rbind (CHECK (pltrelsz b mod pltrelent b = 0)) (\<lambda>_.
             rbind (CHECK (pltrel b = DT_RELA)) (\<lambda>_.
             rbind (read_relas m (jmprel b) (unat (pltrelsz b div pltrelent b))) (\<lambda>rs.
             Inr (b\<lparr>pltrelas := pltrelas b @ rs\<rparr>))))
      else Inr b)"

definition read_st_name :: "memory \<Rightarrow> addr \<Rightarrow> u32 res" where
  "read_st_name m a = rbind (read_bytes m a 4) (\<lambda>bs. Inr (of_nat (le_nat bs)))"

text \<open>
  The scan for the end of the symbol table, which no dynamic tag gives: it goes on while
  \<open>st_name\<close> lies inside the string table. No symbol lies across the last address.
\<close>

function symtab_scan :: "memory \<Rightarrow> u64 \<Rightarrow> addr \<Rightarrow> Elf64_Sym list res" where
  "symtab_scan m limit s =
     rbind (read_st_name m s) (\<lambda>name.
       if ucast name < limit then
         rbind (read_Sym m s) (\<lambda>sym.
           if 2 ^ 64 \<le> unat s + sizeof_Sym then Inl Segv
           else rbind (symtab_scan m limit (s + of_nat sizeof_Sym)) (\<lambda>syms. Inr (sym # syms)))
       else Inr [])"
  by pat_completeness auto
termination
proof (relation "measure (\<lambda>(m, z, s). 2 ^ 64 - unat s)", goal_cases)
  case 1
  show ?case by simp
next
  case (2 m z s name sym)
  then have "unat (s + of_nat sizeof_Sym) = unat s + sizeof_Sym" by (simp add: unat_word_ariths)
  with 2 show ?case by simp
qed

declare symtab_scan.simps [simp del]

definition parse_symtab :: "memory \<Rightarrow> ELFBinary \<Rightarrow> ELFBinary res" where
  "parse_symtab m b =
     (if symtab b \<noteq> 0 then
        rbind (read_Sym m (symtab b)) (\<lambda>first.
        rbind (symtab_scan m (strsz b) (symtab b + of_nat sizeof_Sym)) (\<lambda>rest.
        let b = b\<lparr>symtabs := symtabs b @ first # rest\<rparr>
        in rbind (mapR (\<lambda>s. ShowSym m s (strtab b)) (symtabs b)) (\<lambda>_. Inr b)))
      else Inr b)"

definition ParseDynamic :: "memory \<Rightarrow> ELFBinary \<Rightarrow> ELFBinary res" where
  "ParseDynamic m b =
     rbind (CHECK (base_addr b \<noteq> 0 \<or> e_type (ehdr b) = ET_EXEC)) (\<lambda>_.
     rbind (CHECK (p_filesz (file_dynamic b) mod of_nat sizeof_Dyn = 0)) (\<lambda>_.
     let n = unat (p_filesz (file_dynamic b) div of_nat sizeof_Dyn)
     in rbind (foldR (parse_strtab m) b [0..<n]) (\<lambda>b.
        rbind (CHECK (strtab b \<noteq> 0 \<or> e_type (ehdr b) = ET_EXEC)) (\<lambda>_.
        rbind (foldR (parse_dyn m) b [0..<n]) (\<lambda>b.
        rbind (parse_relas m b) (\<lambda>b.
        rbind (parse_pltrelas m b) (\<lambda>b.
        parse_symtab m b)))))))"

section \<open>Load\<close>

definition load_flags :: "Elf64_Phdr \<Rightarrow> u32" where
  "load_flags ph = (if p_flags ph AND PF_R \<noteq> 0 then PROT_READ else 0) OR PROT_WRITE OR
     (if p_flags ph AND PF_X \<noteq> 0 then PROT_EXEC else 0)"

definition load_flags_str :: "Elf64_Phdr \<Rightarrow> string" where
  "load_flags_str ph = (if p_flags ph AND PF_R \<noteq> 0 then ''r'' else ''_'') @ ''w'' @
     (if p_flags ph AND PF_X \<noteq> 0 then ''x'' else ''_'')"

definition map_line :: "path \<Rightarrow> Elf64_Phdr \<Rightarrow> addr \<Rightarrow> addr \<Rightarrow> string" where
  "map_line path ph mmap_start mmap_end =
     path @ '' '' @ HexString 8 (unat (p_offset ph)) 16 @ ''-'' @
     HexString 8 (unat (p_offset ph + p_filesz ph)) 16 @ '' '' @ load_flags_str ph @ '' '' @
     HexString 8 (unat (p_filesz ph)) 16 @ '' => '' @ HexString_ptr mmap_start 16 @ ''-'' @
     HexString_ptr mmap_end 16 @ [CHR 0x0A]"

definition seg_start :: "ELFBinary \<Rightarrow> Elf64_Phdr \<Rightarrow> addr" where
  "seg_start b ph = page_floor (p_vaddr ph + base_addr b)"

definition seg_end :: "ELFBinary \<Rightarrow> Elf64_Phdr \<Rightarrow> addr" where
  "seg_end b ph = page_ceil (p_vaddr ph + p_memsz ph + base_addr b)"

definition load_segment :: "os \<Rightarrow> ELFBinary \<times> proc \<Rightarrow> Elf64_Phdr \<Rightarrow> (ELFBinary \<times> proc) res" where
  "load_segment os bP ph =
     (let (b, P) = bP
      in if p_type ph \<noteq> PT_LOAD then Inr (b, P)
         else
          (let mmap_start = seg_start b ph;
               mmap_end = seg_end b ph;
               b = b\<lparr>end_addr := mmap_end\<rparr>;
               mmap_size = mmap_end - mmap_start;
               (p, P) = mmap_anon os mmap_start mmap_size (load_flags ph) P
           in rbind (CHECK (mmap_start = p)) (\<lambda>_.
              rbind (CHECK (mmap_start \<le> p_vaddr ph + base_addr b)) (\<lambda>_.
              rbind (CHECK (p_vaddr ph + base_addr b + p_memsz ph \<le> mmap_end)) (\<lambda>_.
              let P = P\<lparr>map_file := map_file P @ map_line (bin_path b) ph mmap_start mmap_end\<rparr>
              in rbind (memcpy (mem P) (p_vaddr ph + base_addr b)
                          (file_base_addr b + p_offset ph) (p_filesz ph)) (\<lambda>m.
                 Inr (b, P\<lparr>mem := m\<rparr>)))))))"

definition Load :: "os \<Rightarrow> addr \<Rightarrow> ELFBinary \<Rightarrow> proc \<Rightarrow> (addr \<times> ELFBinary \<times> proc) res" where
  "Load os base_addr_arg b P =
     (let base = (if e_type (ehdr b) = ET_DYN then base_addr_arg else 0);
          b = b\<lparr>base_addr := base, end_addr := base\<rparr>
      in rbind (foldR (load_segment os) (b, P) (file_phdrs b)) (\<lambda>(b, P).
         rbind (ParseDynamic (mem P) b) (\<lambda>b.
         Inr (slot_ceil (end_addr b), b, P))))"

definition GetSymbolAddr :: "ELFBinary \<Rightarrow> nat \<Rightarrow> addr res" where
  "GetSymbolAddr b symbol_index =
     rbind (CHECK (symbol_index < length (symtabs b))) (\<lambda>_.
     Inr (st_value (symtabs b ! symbol_index) + base_addr b))"

section \<open>One segment\<close>

text \<open>A header whose file part fits its memory part, at an address where it does not wrap.\<close>

definition seg_ok :: "addr \<Rightarrow> Elf64_Phdr \<Rightarrow> bool" where
  "seg_ok base ph = (p_type ph = PT_LOAD \<longrightarrow>
     p_filesz ph \<le> p_memsz ph \<and> unat (p_vaddr ph + base) + unat (p_memsz ph) < 2 ^ 64)"

text \<open>Where a segment lands: the byte \<open>i\<close> of its image, in memory and in the file mapping.\<close>

definition seg_dst :: "addr \<Rightarrow> Elf64_Phdr \<Rightarrow> nat \<Rightarrow> addr" where
  "seg_dst base ph i = p_vaddr ph + base + of_nat i"

definition seg_src :: "ELFBinary \<Rightarrow> Elf64_Phdr \<Rightarrow> nat \<Rightarrow> addr" where
  "seg_src b ph i = file_base_addr b + p_offset ph + of_nat i"

lemma load_segment_PT_LOAD:
  assumes "load_segment os (b, P) ph = Inr (b', P')" and "p_type ph = PT_LOAD"
  obtains P1 m where
    "mmap_anon os (seg_start b ph) (seg_end b ph - seg_start b ph) (load_flags ph) P =
       (seg_start b ph, P1)"
    "seg_start b ph \<le> p_vaddr ph + base_addr b"
    "p_vaddr ph + base_addr b + p_memsz ph \<le> seg_end b ph"
    "memcpy (mem P1) (p_vaddr ph + base_addr b) (file_base_addr b + p_offset ph) (p_filesz ph)
       = Inr m"
    "b' = b\<lparr>end_addr := seg_end b ph\<rparr>"
    "P' = P1\<lparr>map_file := map_file P1 @ map_line (bin_path b) ph (seg_start b ph) (seg_end b ph),
            mem := m\<rparr>"
proof -
  obtain p P1 where mm: "mmap_anon os (seg_start b ph) (seg_end b ph - seg_start b ph)
      (load_flags ph) P = (p, P1)" by fastforce
  with assms obtain m where "p = seg_start b ph"
    "seg_start b ph \<le> p_vaddr ph + base_addr b"
    "p_vaddr ph + base_addr b + p_memsz ph \<le> seg_end b ph"
    "memcpy (mem P1) (p_vaddr ph + base_addr b) (file_base_addr b + p_offset ph) (p_filesz ph)
       = Inr m"
    "b' = b\<lparr>end_addr := seg_end b ph\<rparr>"
    "P' = P1\<lparr>map_file := map_file P1 @ map_line (bin_path b) ph (seg_start b ph) (seg_end b ph),
            mem := m\<rparr>"
    by (auto simp: load_segment_def Let_def res_simps)
  with mm that show ?thesis by blast
qed

lemma mmap_anon_at_hint:
  assumes "mmap_fresh os" and "mmap_anon os hint n prot P = (hint, P1)" and "hint \<noteq> MAP_FAILED"
  shows "unat hint + unat n < 2 ^ 64" "n \<noteq> 0"
  using assms by (auto simp: mmap_anon_def mmap_with_def mmap_fresh_def split: if_splits option.splits)

lemma seg_start_not_failed: "seg_start b ph \<noteq> MAP_FAILED"
proof
  assume "seg_start b ph = MAP_FAILED"
  then have "unat (seg_start b ph) = 2 ^ 64 - 1" by (simp add: MAP_FAILED_def unat_minus_one_u64)
  moreover have "unat (seg_start b ph) mod 4096 = 0" by (simp add: seg_start_def unat_page_floor)
  ultimately show False by simp
qed

lemma unat_seg_dst:
  "seg_ok base ph \<Longrightarrow> p_type ph = PT_LOAD \<Longrightarrow> i < unat (p_memsz ph) \<Longrightarrow>
    unat (seg_dst base ph i) = unat (p_vaddr ph + base) + i"
  unfolding seg_dst_def seg_ok_def
  by (subst unat_word_ariths) (simp add: unat_of_nat_u64)

lemma seg_dst_in_area:
  assumes "mmap_fresh os" and "load_segment os (b, P) ph = Inr (b', P')"
    and "p_type ph = PT_LOAD" and "seg_ok (base_addr b) ph" and "i < unat (p_memsz ph)"
  shows "unat (seg_dst (base_addr b) ph i - seg_start b ph) < unat (seg_end b ph - seg_start b ph)"
proof -
  let ?s = "seg_start b ph" and ?e = "seg_end b ph" and ?D = "p_vaddr ph + base_addr b"
  from assms(2,3) obtain P1 where mm: "mmap_anon os ?s (?e - ?s) (load_flags ph) P = (?s, P1)"
    and lo: "?s \<le> ?D" and hi: "?D + p_memsz ph \<le> ?e"
    by (rule load_segment_PT_LOAD)
  from mmap_anon_at_hint [OF assms(1) mm seg_start_not_failed]
  have fit: "unat ?s + unat (?e - ?s) < 2 ^ 64" by simp
  then have se: "unat ?s + unat (?e - ?s) = unat ?e"
    by (rule unat_diff_fits)
  from assms(4,3) have "unat (?D + p_memsz ph) = unat ?D + unat (p_memsz ph)"
    by (simp add: seg_ok_def unat_add_u64)
  with hi assms(5) have "unat ?D + i < unat ?e" by (simp add: word_le_nat_alt)
  moreover have "unat (seg_dst (base_addr b) ph i) = unat ?D + i"
    using assms by (simp add: unat_seg_dst)
  ultimately show ?thesis
    using lo se fit by (simp add: unat_offset_range word_le_nat_alt)
qed

lemma load_segment_wf:
  assumes "mmap_fresh os" and "proc_wf P" and "load_segment os (b, P) ph = Inr (b', P')"
  shows "proc_wf P'"
proof (cases "p_type ph = PT_LOAD")
  case False
  with assms show ?thesis by (simp add: load_segment_def)
next
  case True
  from assms(3) True obtain P1 m where
    mm: "mmap_anon os (seg_start b ph) (seg_end b ph - seg_start b ph) (load_flags ph) P =
       (seg_start b ph, P1)"
    and cp: "memcpy (mem P1) (p_vaddr ph + base_addr b) (file_base_addr b + p_offset ph)
       (p_filesz ph) = Inr m"
    and P': "P' = P1\<lparr>map_file := map_file P1 @
       map_line (bin_path b) ph (seg_start b ph) (seg_end b ph), mem := m\<rparr>"
    by (rule load_segment_PT_LOAD)
  from assms(1,2) mm have "proc_wf P1" unfolding mmap_anon_def by (rule mmap_with_wf)
  then show ?thesis
    unfolding P' using memcpy_mapped [OF cp] by (intro proc_wf_mem) simp_all
qed

lemma load_segment_binary:
  "load_segment os (b, P) ph = Inr (b', P') \<Longrightarrow> \<exists>e. b' = b\<lparr>end_addr := e\<rparr>"
proof (cases "p_type ph = PT_LOAD")
  case False
  assume "load_segment os (b, P) ph = Inr (b', P')"
  with False have "b' = b\<lparr>end_addr := end_addr b\<rparr>" by (simp add: load_segment_def)
  then show ?thesis by blast
next
  case True
  assume "load_segment os (b, P) ph = Inr (b', P')"
  from this True show ?thesis by (rule load_segment_PT_LOAD) blast
qed

lemma memcpy_segment_at:
  assumes "memcpy m D S n = Inr m'" and "unat n \<le> k" and "\<And>i. i < k \<Longrightarrow> D + of_nat i \<noteq> a"
  shows "m' a = m a"
proof -
  have "\<not> unat (a - D) < unat n"
    using assms(2) assms(3) [of "unat (a - D)"] by auto
  with memcpy_at [OF assms(1)] show ?thesis by simp
qed

lemma load_segment_frame:
  assumes "mmap_fresh os" and "proc_wf P" and "load_segment os (b, P) ph = Inr (b', P')"
    and "seg_ok (base_addr b) ph" and "mem P a \<noteq> None"
  shows "mem P' a = mem P a"
proof (cases "p_type ph = PT_LOAD")
  case False
  with assms show ?thesis by (simp add: load_segment_def)
next
  case True
  from assms(3) True obtain P1 m where
    mm: "mmap_anon os (seg_start b ph) (seg_end b ph - seg_start b ph) (load_flags ph) P =
       (seg_start b ph, P1)"
    and cp: "memcpy (mem P1) (p_vaddr ph + base_addr b) (file_base_addr b + p_offset ph)
       (p_filesz ph) = Inr m"
    and P': "P' = P1\<lparr>map_file := map_file P1 @
       map_line (bin_path b) ph (seg_start b ph) (seg_end b ph), mem := m\<rparr>"
    by (rule load_segment_PT_LOAD)
  note keeps = mmap_with_keeps [OF assms(1,2) mm [unfolded mmap_anon_def] seg_start_not_failed assms(5)]
  have "m a = mem P1 a"
  proof (rule memcpy_segment_at [OF cp, of "unat (p_memsz ph)"])
    show "unat (p_filesz ph) \<le> unat (p_memsz ph)"
      using assms(4) True by (simp add: seg_ok_def word_le_nat_alt)
    show "p_vaddr ph + base_addr b + of_nat i \<noteq> a" if "i < unat (p_memsz ph)" for i
      using seg_dst_in_area [OF assms(1,3) True assms(4) that] keeps(1) by (auto simp: seg_dst_def)
  qed
  with keeps(2) P' show ?thesis by simp
qed

lemma load_segment_image:
  assumes "mmap_fresh os" and "proc_wf P" and "load_segment os (b, P) ph = Inr (b', P')"
    and "seg_ok (base_addr b) ph" and "p_type ph = PT_LOAD" and "i < unat (p_memsz ph)"
  shows "mem P' (seg_dst (base_addr b) ph i) \<noteq> None"
    and "i < unat (p_filesz ph) \<Longrightarrow> mem P (seg_src b ph i) \<noteq> None \<Longrightarrow>
      mem P' (seg_dst (base_addr b) ph i) = mem P (seg_src b ph i)"
    and "unat (p_filesz ph) \<le> i \<Longrightarrow> mem P' (seg_dst (base_addr b) ph i) = Some 0"
proof -
  let ?a = "seg_dst (base_addr b) ph i"
  from assms(3,5) obtain P1 m where
    mm: "mmap_anon os (seg_start b ph) (seg_end b ph - seg_start b ph) (load_flags ph) P =
       (seg_start b ph, P1)"
    and cp: "memcpy (mem P1) (p_vaddr ph + base_addr b) (file_base_addr b + p_offset ph)
       (p_filesz ph) = Inr m"
    and P': "P' = P1\<lparr>map_file := map_file P1 @
       map_line (bin_path b) ph (seg_start b ph) (seg_end b ph), mem := m\<rparr>"
    by (rule load_segment_PT_LOAD)
  note mm' = mm [unfolded mmap_anon_def]
  from mmap_with_fresh(2) [OF assms(1,2) mm' seg_start_not_failed
      seg_dst_in_area [OF assms(1,3,5,4,6)]]
  have zero: "mem P1 ?a = Some 0" .
  have off: "?a - (p_vaddr ph + base_addr b) = of_nat i" by (simp add: seg_dst_def)
  have ui: "unat (of_nat i :: u64) = i"
    using assms(6) unat_u64_less [of "p_memsz ph"] by (intro unat_of_nat_u64) linarith
  have at: "mem P' ?a = (if i < unat (p_filesz ph) then mem P1 (seg_src b ph i) else mem P1 ?a)"
    using memcpy_at [OF cp, of ?a] unfolding P' off ui seg_src_def by simp
  show "mem P' ?a \<noteq> None" using memcpy_mapped [OF cp, of ?a] zero by (simp add: P')
  show "mem P' ?a = Some 0" if "unat (p_filesz ph) \<le> i" using at zero that by simp
  show "mem P' ?a = mem P (seg_src b ph i)"
    if "i < unat (p_filesz ph)" and "mem P (seg_src b ph i) \<noteq> None"
    using mmap_with_keeps(2) [OF assms(1,2) mm' seg_start_not_failed that(2)] at that(1) by simp
qed

section \<open>All segments\<close>

text \<open>
  A segment is placed when its file part equals the mapped file and the rest is zero. Loading
  only extends memory: \<open>mem P \<subseteq>\<^sub>m mem P'\<close> says that what was mapped is unchanged.
\<close>

definition seg_placed :: "memory \<Rightarrow> memory \<Rightarrow> ELFBinary \<Rightarrow> Elf64_Phdr \<Rightarrow> bool" where
  "seg_placed m m' b ph \<longleftrightarrow> (p_type ph = PT_LOAD \<longrightarrow> (\<forall>i < unat (p_memsz ph).
     m' (seg_dst (base_addr b) ph i) \<noteq> None \<and>
     (i < unat (p_filesz ph) \<longrightarrow> m (seg_src b ph i) \<noteq> None \<longrightarrow>
        m' (seg_dst (base_addr b) ph i) = m (seg_src b ph i)) \<and>
     (unat (p_filesz ph) \<le> i \<longrightarrow> m' (seg_dst (base_addr b) ph i) = Some 0)))"

lemma seg_placed_at:
  "seg_placed m m' b ph \<Longrightarrow> p_type ph = PT_LOAD \<Longrightarrow> i < unat (p_memsz ph) \<Longrightarrow>
    (i < unat (p_filesz ph) \<Longrightarrow> m (seg_src b ph i) = Some x) \<Longrightarrow>
    m' (seg_dst (base_addr b) ph i) = (if i < unat (p_filesz ph) then Some x else Some 0)"
  by (auto simp: seg_placed_def)

lemma map_le_at: "m \<subseteq>\<^sub>m m' \<Longrightarrow> m a \<noteq> None \<Longrightarrow> m' a = m a"
  by (auto simp: map_le_def dom_def)

lemma seg_placed_end_addr [simp]:
  "seg_placed m m' (b\<lparr>end_addr := e\<rparr>) ph = seg_placed m m' b ph"
  by (simp add: seg_placed_def seg_src_def)

lemma seg_placed_later: "seg_placed m m1 b ph \<Longrightarrow> m1 \<subseteq>\<^sub>m m2 \<Longrightarrow> seg_placed m m2 b ph"
  by (simp add: seg_placed_def map_le_at)

lemma seg_placed_earlier: "seg_placed m1 m2 b ph \<Longrightarrow> m \<subseteq>\<^sub>m m1 \<Longrightarrow> seg_placed m m2 b ph"
  unfolding seg_placed_def by (metis map_le_at)

lemma load_segment_effect:
  assumes "mmap_fresh os" and "proc_wf P" and "load_segment os (b, P) ph = Inr (b', P')"
    and "seg_ok (base_addr b) ph"
  shows "mem P \<subseteq>\<^sub>m mem P'" "seg_placed (mem P) (mem P') b ph"
proof -
  show "mem P \<subseteq>\<^sub>m mem P'"
    unfolding map_le_def
  proof
    fix a assume "a \<in> dom (mem P)"
    then have "mem P a \<noteq> None" by (simp add: domIff)
    from load_segment_frame [OF assms this] show "mem P a = mem P' a" by simp
  qed
  show "seg_placed (mem P) (mem P') b ph"
    using load_segment_image [OF assms] by (simp add: seg_placed_def)
qed

interpretation segment_loop: checked_loop "load_segment os"
  "\<lambda>bP. base_addr (fst bP) = base \<and> file_phdrs (fst bP) = phs \<and> ehdr (fst bP) = h \<and>
     bin_path (fst bP) = q" for os base phs h q
proof (unfold_locales, goal_cases)
  case (1 bP ph bP')
  then show ?case
    using load_segment_binary [of os "fst bP" "snd bP" ph "fst bP'" "snd bP'"] by auto
qed

lemma load_loop_base:
  "foldR (load_segment os) (b, P) phs = Inr (b', P') \<Longrightarrow> base_addr b' = base_addr b"
  using segment_loop.loop_inv [where s = "(b, P)" and s' = "(b', P')"] by auto

lemma load_loop_effect:
  assumes "foldR (load_segment os) (b, P) phs = Inr (b', P')"
    and "mmap_fresh os" and "proc_wf P" and "\<forall>ph \<in> set phs. seg_ok (base_addr b) ph"
  shows "proc_wf P' \<and> (\<exists>e. b' = b\<lparr>end_addr := e\<rparr>) \<and> mem P \<subseteq>\<^sub>m mem P' \<and>
    (\<forall>ph \<in> set phs. seg_placed (mem P) (mem P') b ph)"
  using assms
proof (induction phs arbitrary: b P)
  case Nil
  have "\<exists>e. b = b\<lparr>end_addr := e\<rparr>" by (rule exI [of _ "end_addr b"]) simp
  with Nil show ?case by auto
next
  case (Cons ph phs)
  then obtain b1 P1 where st: "load_segment os (b, P) ph = Inr (b1, P1)"
    and rest: "foldR (load_segment os) (b1, P1) phs = Inr (b', P')"
    by (auto simp: res_simps)
  have ok: "seg_ok (base_addr b) ph" using Cons.prems(4) by simp
  note one = load_segment_effect [OF Cons.prems(2,3) st ok]
  have wf1: "proc_wf P1" using Cons.prems(2,3) st by (rule load_segment_wf)
  obtain e where b1: "b1 = b\<lparr>end_addr := e\<rparr>" using load_segment_binary [OF st] by blast
  have "\<forall>ph \<in> set phs. seg_ok (base_addr b1) ph" using Cons.prems(4) by (simp add: b1)
  note IH = Cons.IH [OF rest Cons.prems(2) wf1 this, unfolded b1]
  from IH have ext: "mem P1 \<subseteq>\<^sub>m mem P'" by blast
  have "seg_placed (mem P) (mem P') b q" if "q \<in> set (ph # phs)" for q
  proof (cases "q = ph")
    case True
    with seg_placed_later [OF one(2) ext] show ?thesis by simp
  next
    case False
    with that IH have "seg_placed (mem P1) (mem P') b q" by simp
    from seg_placed_earlier [OF this one(1)] show ?thesis .
  qed
  moreover have "mem P \<subseteq>\<^sub>m mem P'" using one(1) ext by (rule map_le_trans)
  moreover have "\<exists>e. b' = b\<lparr>end_addr := e\<rparr>" using IH by auto
  ultimately show ?case using IH by blast
qed

text \<open>\<open>ParseDynamic\<close> only fills in members; it moves nothing and renames nothing.\<close>

definition same_place :: "ELFBinary \<Rightarrow> ELFBinary \<Rightarrow> bool" where
  "same_place b b' \<longleftrightarrow> base_addr b' = base_addr b \<and> end_addr b' = end_addr b \<and>
     bin_path b' = bin_path b \<and> file_phdrs b' = file_phdrs b \<and> ehdr b' = ehdr b \<and>
     has_tls b' = has_tls b \<and> file_tls b' = file_tls b \<and>
     file_base_addr b' = file_base_addr b"

lemma same_place_refl: "same_place b b"
  by (simp add: same_place_def)

lemma same_place_trans: "same_place a b \<Longrightarrow> same_place b c \<Longrightarrow> same_place a c"
  by (simp add: same_place_def)

lemma parse_strtab_place: "parse_strtab m b i = Inr b' \<Longrightarrow> same_place b b'"
  by (auto simp: parse_strtab_def same_place_def res_simps split: if_splits)

lemma set_dyn_place: "set_dyn m b tag v = Inr b' \<Longrightarrow> same_place b b'"
  by (auto simp: set_dyn_def same_place_def res_simps split: if_splits)

lemma parse_dyn_place: "parse_dyn m b i = Inr b' \<Longrightarrow> same_place b b'"
  by (auto simp: parse_dyn_def same_place_refl res_simps split: if_splits dest: set_dyn_place)

interpretation strtab_loop: checked_loop "parse_strtab m" "same_place b0" for m b0
  by unfold_locales (blast intro: same_place_trans parse_strtab_place)

interpretation dyn_loop: checked_loop "parse_dyn m" "same_place b0" for m b0
  by unfold_locales (blast intro: same_place_trans parse_dyn_place)

lemma ParseDynamic_place:
  assumes "ParseDynamic m b = Inr b'"
  shows "same_place b b'"
proof -
  from assms obtain n b1 b2 b3 b4 where
    1: "foldR (parse_strtab m) b [0..<n] = Inr b1" and 2: "foldR (parse_dyn m) b1 [0..<n] = Inr b2"
    and 3: "parse_relas m b2 = Inr b3" and 4: "parse_pltrelas m b3 = Inr b4"
    and 5: "parse_symtab m b4 = Inr b'"
    by (auto simp: ParseDynamic_def Let_def res_simps)
  have "same_place b b1" by (rule strtab_loop.loop_inv [OF same_place_refl 1])
  also have "same_place b1 b2" by (rule dyn_loop.loop_inv [OF same_place_refl 2])
  note same_place_trans [OF calculation this]
  moreover have "same_place b2 b3" "same_place b3 b4" "same_place b4 b'"
    using 3 4 5 by (auto simp: parse_relas_def parse_pltrelas_def parse_symtab_def same_place_def
        Let_def res_simps split: if_splits)
  ultimately show ?thesis by (blast intro: same_place_trans)
qed

section \<open>From the file to the image\<close>

lemma Load_parts:
  assumes "Load os base b P = Inr (nxt, b', P')"
  obtains b1 where "foldR (load_segment os)
      (b\<lparr>base_addr := if e_type (ehdr b) = ET_DYN then base else 0,
         end_addr := if e_type (ehdr b) = ET_DYN then base else 0\<rparr>, P) (file_phdrs b) = Inr (b1, P')"
    "ParseDynamic (mem P') b1 = Inr b'" "nxt = slot_ceil (end_addr b')"
  using assms by (auto simp: Load_def Let_def res_simps)

lemma add_phdr_file: "file_base_addr (add_phdr b ph) = file_base_addr b"
  "bin_path (add_phdr b ph) = bin_path b" "ehdr (add_phdr b ph) = ehdr b"
  by (simp_all add: add_phdr_def Let_def)

interpretation phdr_loop: checked_loop
  "\<lambda>b i. rbind (read_Phdr m (phdr_addr b i)) (\<lambda>ph. Inr (add_phdr b ph))"
  "\<lambda>b. file_base_addr b = p \<and> bin_path b = q \<and> ehdr b = h" for m p q h
  by unfold_locales (auto simp: res_simps add_phdr_file)

lemma ctor_parts:
  assumes "ELFBinary_ctor os path P = Inr (b, P')"
  obtains content eh where "os_file os path = Some content" "fds P \<noteq> 0"
    "mmap_file os content (page_ceil (of_nat (length content)))
       (PROT_READ OR PROT_WRITE OR PROT_EXEC) (P\<lparr>fds := fds P - 1\<rparr>) = (file_base_addr b, P')"
    "file_base_addr b \<noteq> MAP_FAILED" "read_Ehdr (mem P') (file_base_addr b) = Inr eh"
    "bin_path b = path" "ehdr b = eh"
    "foldR (\<lambda>b i. rbind (read_Phdr (mem P') (phdr_addr b i)) (\<lambda>ph. Inr (add_phdr b ph)))
       (new_ELFBinary path (file_base_addr b) eh) [0..<unat (e_phnum eh)] = Inr b"
proof -
  from assms obtain c where c: "os_file os path = Some c" and n: "fds P \<noteq> 0"
    by (cases "os_file os path") (auto simp: ELFBinary_ctor_def open_file_def split: if_splits)
  obtain p P1 where mm: "mmap_file os c (page_ceil (of_nat (length c)))
      (PROT_READ OR PROT_WRITE OR PROT_EXEC) (P\<lparr>fds := fds P - 1\<rparr>) = (p, P1)" by fastforce
  with assms c n obtain eh where "p \<noteq> MAP_FAILED" "P1 = P'" "read_Ehdr (mem P1) p = Inr eh"
    and lp: "foldR (\<lambda>b i. rbind (read_Phdr (mem P1) (phdr_addr b i)) (\<lambda>ph. Inr (add_phdr b ph)))
          (new_ELFBinary path p eh) [0..<unat (e_phnum eh)] = Inr b"
    by (auto simp: ELFBinary_ctor_def open_file_def Let_def res_simps)
  moreover have "file_base_addr b = p \<and> bin_path b = path \<and> ehdr b = eh"
    by (rule phdr_loop.loop_inv [OF _ lp]) (simp add: new_ELFBinary_def)
  ultimately show ?thesis using that c n mm by simp
qed

lemma ctor_maps_file:
  assumes "mmap_fresh os" and "proc_wf P" and "ELFBinary_ctor os path P = Inr (b, P')"
    and "os_file os path = Some content" and "length content + 4095 < 2 ^ 64"
  shows "proc_wf P'"
    and "j < length content \<Longrightarrow> mem P' (file_base_addr b + of_nat j) = Some (content ! j)"
proof -
  let ?n = "page_ceil (of_nat (length content))" and ?P = "P\<lparr>fds := fds P - 1\<rparr>"
  from assms(3) have mm: "mmap_with os (file_byte content) 0 ?n
        (PROT_READ OR PROT_WRITE OR PROT_EXEC) ?P = (file_base_addr b, P')"
    and nf: "file_base_addr b \<noteq> MAP_FAILED"
    by (rule ctor_parts; use assms(4) in \<open>simp add: mmap_file_def\<close>)+
  have wf: "proc_wf ?P" using assms(2) by simp
  show "proc_wf P'" by (rule mmap_with_wf [OF assms(1) wf mm])
  assume j: "j < length content"
  have uj: "unat (of_nat j :: u64) = j" and ul: "unat (of_nat (length content) :: u64) = length content"
    using j assms(5) by (simp_all add: unat_of_nat_u64)
  have "unat (file_base_addr b + of_nat j - file_base_addr b) < unat ?n"
    using j ul uj assms(5) by (simp add: unat_page_ceil)
  from mmap_with_fresh(2) [OF assms(1) wf mm nf this] uj j
  show "mem P' (file_base_addr b + of_nat j) = Some (content ! j)"
    by (simp add: file_byte_def)
qed

lemma Load_effect:
  assumes "mmap_fresh os" and "proc_wf P" and "Load os base b P = Inr (nxt, b', P')"
    and "\<forall>ph \<in> set (file_phdrs b). seg_ok (base_addr b') ph"
  shows "proc_wf P'" "base_addr b' = (if e_type (ehdr b) = ET_DYN then base else 0)"
    and "mem P \<subseteq>\<^sub>m mem P'"
    and "ph \<in> set (file_phdrs b) \<Longrightarrow> seg_placed (mem P) (mem P') (b\<lparr>base_addr := base_addr b'\<rparr>) ph"
proof -
  let ?base = "if e_type (ehdr b) = ET_DYN then base else 0"
  let ?b = "b\<lparr>base_addr := ?base, end_addr := ?base\<rparr>"
  from assms(3) obtain b1 where lp: "foldR (load_segment os) (?b, P) (file_phdrs b) = Inr (b1, P')"
    and pd: "ParseDynamic (mem P') b1 = Inr b'"
    by (rule Load_parts)
  show base: "base_addr b' = ?base"
    using load_loop_base [OF lp] ParseDynamic_place [OF pd] by (simp add: same_place_def)
  from assms(4) have "\<forall>ph \<in> set (file_phdrs b). seg_ok (base_addr ?b) ph" by (simp add: base)
  from load_loop_effect [OF lp assms(1,2) this] base
  show "proc_wf P'" "mem P \<subseteq>\<^sub>m mem P'"
    "ph \<in> set (file_phdrs b) \<Longrightarrow> seg_placed (mem P) (mem P') (b\<lparr>base_addr := base_addr b'\<rparr>) ph"
    by simp_all
qed

section \<open>Properties\<close>

lemmas eval_binary [eval_simps] = ELFBinary_ctor_def phdr_addr_def add_phdr_def new_ELFBinary_def
  Load_def load_segment_def seg_start_def seg_end_def ParseDynamic_def dyn_addr_def
  parse_relas_def parse_pltrelas_def parse_symtab_def zero_Phdr_def load_flags_def

lemma segment_bytes:
  assumes "mmap_fresh os" and "proc_wf P"
    and "ELFBinary_ctor os path P = Inr (b, P1)" and "Load os base b P1 = Inr (nxt, b', P')"
    and "os_file os path = Some content" and "length content + 4095 < 2 ^ 64"
    and "\<forall>ph \<in> set (file_phdrs b). seg_ok (base_addr b') ph"
    and "ph \<in> set (file_phdrs b)" and "p_type ph = PT_LOAD"
    and "unat (p_offset ph) + unat (p_filesz ph) \<le> length content"
    and "i < unat (p_memsz ph)"
  shows "mem P' (base_addr b' + p_vaddr ph + of_nat i) =
    Some (if i < unat (p_filesz ph) then content ! (unat (p_offset ph) + i) else 0)"
proof -
  note mapped = ctor_maps_file [OF assms(1-3,5,6)]
  let ?b = "b\<lparr>base_addr := base_addr b'\<rparr>"
  have placed: "seg_placed (mem P1) (mem P') ?b ph"
    by (rule Load_effect(4) [OF assms(1) mapped(1) assms(4,7,8)])
  have "mem P1 (seg_src ?b ph i) = Some (content ! (unat (p_offset ph) + i))"
    if "i < unat (p_filesz ph)"
  proof -
    from that assms(10) have "unat (p_offset ph) + i < length content" by linarith
    from mapped(2) [OF this] show ?thesis by (simp add: seg_src_def add.assoc)
  qed
  from seg_placed_at [OF placed assms(9,11) this] show ?thesis
    by (simp add: seg_dst_def add.commute)
qed

text \<open>
  C2: the image of every \<open>PT_LOAD\<close> segment is the file. After the constructor and
  \<open>Load\<close> have returned, byte \<open>i\<close> of a segment at its run-time address is the byte
  of the file at \<open>p_offset + i\<close> inside the file part and zero in the rest (the
  \<open>.bss\<close>), whatever the other segments are, provided the kernel never maps over existing
  areas, \<open>p_filesz \<le> p_memsz\<close> in every segment and no segment wraps.
\<close>

theorem load_image:
  assumes "mmap_fresh os" and "proc_wf P"
    and "ELFBinary_ctor os path P = Inr (b, P1)" and "Load os base b P1 = Inr (nxt, b', P')"
    and "os_file os path = Some content" and "length content + 4095 < 2 ^ 64"
    and "\<forall>ph \<in> set (file_phdrs b). seg_ok (base_addr b') ph"
    and "ph \<in> set (file_phdrs b)" and "p_type ph = PT_LOAD"
    and "unat (p_offset ph) + unat (p_filesz ph) \<le> length content"
    and "i < unat (p_memsz ph)"
  shows "mem P' (base_addr b' + p_vaddr ph + of_nat i) =
    Some (if i < unat (p_filesz ph) then content ! (unat (p_offset ph) + i) else 0)"
  using assms by (rule segment_bytes)

lemma exec_ctor:
  "ELFBinary_ctor (host_with [(''/a'', exec_file)]) ''/a'' (empty_proc 5) =
     Inr ((new_ELFBinary ''/a'' 0x7f0000000000 \<lparr>e_type = ET_EXEC, e_entry = 0x10010, e_phoff = 64,
             e_phentsize = 56, e_phnum = 1\<rparr>)\<lparr>file_phdrs := [exec_seg]\<rparr>,
          \<lparr>mem = map_at (\<lambda>_. None) 0x7f0000000000 0x1000 (file_byte exec_file),
           vmas = [(0x7f0000000000, 0x1000, 7)], fds = 4, map_file = []\<rparr>)"
  by (simp add: eval_simps exec_file_eq exec_seg_def empty_proc_def)

lemma exec_load:
  "\<exists>b' P'. Load (host_with [(''/a'', exec_file)]) 0x1400000
     ((new_ELFBinary ''/a'' 0x7f0000000000 \<lparr>e_type = ET_EXEC, e_entry = 0x10010, e_phoff = 64,
             e_phentsize = 56, e_phnum = 1\<rparr>)\<lparr>file_phdrs := [exec_seg]\<rparr>)
          \<lparr>mem = map_at (\<lambda>_. None) 0x7f0000000000 0x1000 (file_byte exec_file),
           vmas = [(0x7f0000000000, 0x1000, 7)], fds = 4, map_file = []\<rparr> = Inr (0x400000, b', P')
     \<and> base_addr b' = 0 \<and> end_addr b' = 0x11000 \<and> neededs b' = [] \<and> bin_path b' = ''/a''"
  by (simp add: eval_simps exec_file_eq exec_seg_def)

theorem load_image_witness:
  "\<exists>b P1 nxt b' P'. mmap_fresh (host_with [(''/a'', exec_file)]) \<and> proc_wf (empty_proc 5) \<and>
     ELFBinary_ctor (host_with [(''/a'', exec_file)]) ''/a'' (empty_proc 5) = Inr (b, P1) \<and>
     Load (host_with [(''/a'', exec_file)]) 0x1400000 b P1 = Inr (nxt, b', P') \<and>
     exec_seg \<in> set (file_phdrs b) \<and> mem P' 0x10011 = Some 0xad \<and> mem P' 0x10015 = Some 0"
proof -
  let ?os = "host_with [(''/a'', exec_file)]"
  obtain b P1 where c: "ELFBinary_ctor ?os ''/a'' (empty_proc 5) = Inr (b, P1)"
    and b: "file_phdrs b = [exec_seg]" and "b = fst (projr (ELFBinary_ctor ?os ''/a'' (empty_proc 5)))"
    and "P1 = snd (projr (ELFBinary_ctor ?os ''/a'' (empty_proc 5)))"
    by (simp add: exec_ctor)
  then obtain b' P' where l: "Load ?os 0x1400000 b P1 = Inr (0x400000, b', P')"
    and base: "base_addr b' = 0" using exec_load by (auto simp: exec_ctor)
  have ok: "\<forall>ph \<in> set (file_phdrs b). seg_ok (base_addr b') ph"
    by (simp add: b base seg_ok_def exec_seg_def)
  have seg: "exec_seg \<in> set (file_phdrs b)" "p_type exec_seg = PT_LOAD"
    by (simp_all add: b exec_seg_def)
  note image = load_image [OF host_with_fresh empty_proc_wf c l _ _ ok seg, of exec_file]
  have "mem P' 0x10011 = Some 0xad"
    using image [of 1] by (simp add: base exec_file_eq exec_seg_def)
  moreover have "mem P' 0x10015 = Some 0"
    using image [of 5] by (simp add: base exec_file_eq exec_seg_def)
  ultimately show ?thesis using host_with_fresh empty_proc_wf c l seg(1) by blast
qed

section \<open>A sample shared library\<close>

abbreviation dyn_ctor_bin :: ELFBinary where
  "dyn_ctor_bin \<equiv> (new_ELFBinary ''/a'' 0x7f0000000000 \<lparr>e_type = ET_DYN, e_entry = 0x10, e_phoff = 64,
             e_phentsize = 56, e_phnum = 2\<rparr>)\<lparr>file_phdrs := [dyn_seg, dyn_seg\<lparr>p_type := PT_DYNAMIC\<rparr>],
             file_dynamic := dyn_seg\<lparr>p_type := PT_DYNAMIC\<rparr>\<rparr>"

lemma dyn_ctor:
  "ELFBinary_ctor (host_with [(''/a'', dyn_file)]) ''/a'' (empty_proc 5) =
     Inr (dyn_ctor_bin,
          \<lparr>mem = map_at (\<lambda>_. None) 0x7f0000000000 0x1000 (file_byte dyn_file),
           vmas = [(0x7f0000000000, 0x1000, 7)], fds = 4, map_file = []\<rparr>)"
  by (simp add: eval_simps dyn_file_eq dyn_seg_def empty_proc_def)

lemma dyn_load:
  "\<exists>b' P'. Load (host_with [(''/a'', dyn_file)]) 0x1400000 dyn_ctor_bin
          \<lparr>mem = map_at (\<lambda>_. None) 0x7f0000000000 0x1000 (file_byte dyn_file),
           vmas = [(0x7f0000000000, 0x1000, 7)], fds = 4, map_file = []\<rparr> = Inr (0x1800000, b', P')
     \<and> base_addr b' = 0x1400000 \<and> end_addr b' = 0x1401000 \<and> neededs b' = [] \<and> bin_path b' = ''/a''
     \<and> e_type (ehdr b') = ET_DYN \<and> relas b' = [] \<and> pltrelas b' = []
     \<and> file_phdrs b' = [dyn_seg, dyn_seg\<lparr>p_type := PT_DYNAMIC\<rparr>]"
  by (simp add: eval_simps parse_strtab_def parse_dyn_def dyn_tags_def dyn_file_eq dyn_seg_def)

end
