(* ===== verification/Ldso_Conf.thy ===== *)
theory Ldso_Conf
  imports Host Sample_Host
begin

text \<open>
  \<open>read_ldsoconf_dfs\<close> and \<open>read_ldsoconf\<close> of \<open>dyn_loader.cc\<close>: the directories listed
  in \<open>/etc/ld.so.conf\<close> and the files it includes. Every level of the recursion keeps its
  stream open, so the recursion is never deeper than the number of descriptors left: when they
  run out, \<open>f.open\<close> fails and the call returns at once. \<open>conf_dirs\<close> is the
  meaning of a configuration file without that limit; the recursion computes it whenever the
  includes are nested less deeply than there are descriptors.
\<close>

section \<open>Reading tokens\<close>

definition is_space :: "char \<Rightarrow> bool" where
  "is_space c = (c = CHR '' '' \<or> (9 \<le> (of_char c :: nat) \<and> of_char c \<le> (13 :: nat)))"

text \<open>\<open>f >> head\<close>: skip white space, take the characters up to the next white space.\<close>

definition next_token :: "string \<Rightarrow> (string \<times> string) option" where
  "next_token s =
     (let s = dropWhile is_space s
      in if s = [] then None
         else Some (takeWhile (\<lambda>c. \<not> is_space c) s, dropWhile (\<lambda>c. \<not> is_space c) s))"

text \<open>\<open>std::getline\<close>: consume the rest of the line.\<close>

definition drop_line :: "string \<Rightarrow> string" where
  "drop_line s = drop 1 (dropWhile (\<lambda>c. c \<noteq> CHR 0x0A) s)"

lemma next_token_length:
  assumes "next_token s = Some (t, r)"
  shows "length r < length s"
proof -
  let ?s = "dropWhile is_space s"
  from assms have ne: "?s \<noteq> []" and r: "r = dropWhile (\<lambda>c. \<not> is_space c) ?s"
    by (auto simp: next_token_def Let_def split: if_splits)
  from ne have "\<not> is_space (hd ?s)" by (rule hd_dropWhile)
  with ne have "length r \<le> length (tl ?s)"
    by (cases ?s) (auto simp: r length_dropWhile_le)
  also have "\<dots> < length ?s" using ne by (cases ?s) auto
  also have "\<dots> \<le> length s" by (rule length_dropWhile_le)
  finally show ?thesis .
qed

lemma drop_line_length: "length (drop_line s) \<le> length s"
  using length_dropWhile_le [of "\<lambda>c. c \<noteq> CHR 0x0A" s] by (simp add: drop_line_def)

section \<open>One file\<close>

datatype conf_item = Dir path | Include string

text \<open>
  The body of the \<open>while\<close> loop: comments are skipped to the end of their line,
  \<open>include\<close> takes the next token as a pattern (empty at the end of the file), every other
  token is a directory.
\<close>

function conf_items :: "string \<Rightarrow> conf_item list" where
  "conf_items s =
     (case next_token s of
        None \<Rightarrow> []
      | Some (head, rest) \<Rightarrow>
          if take 1 head = ''#'' then conf_items (drop_line rest)
          else if head = ''include'' then
            (case next_token rest of
               None \<Rightarrow> [Include []]
             | Some (descendants, rest') \<Rightarrow> Include descendants # conf_items rest')
          else Dir head # conf_items rest)"
  by pat_completeness auto
termination
proof (relation "measure length", goal_cases)
  case 1
  show ?case by simp
next
  case (2 s p head rest)
  then have "next_token s = Some (head, rest)" by simp
  from next_token_length [OF this] drop_line_length [of rest] show ?case by simp
next
  case (3 s p head rest q desc rest')
  then have "next_token s = Some (head, rest)" "next_token rest = Some (desc, rest')" by simp_all
  from this [THEN next_token_length] show ?case by simp
next
  case (4 s p head rest)
  then have "next_token s = Some (head, rest)" by simp
  from next_token_length [OF this] show ?case by simp
qed

declare conf_items.simps [simp del]

definition text_of :: "byte list \<Rightarrow> string" where
  "text_of bs = map (\<lambda>b. char_of (unat b)) bs"

section \<open>Includes\<close>

definition skipped_conf :: "path \<Rightarrow> bool" where
  "skipped_conf f = (contains f ''i386'' \<or> contains f ''lib32'')"

primrec read_ldsoconf_dfs :: "nat \<Rightarrow> os \<Rightarrow> path list \<Rightarrow> path \<Rightarrow> path list" where
  "read_ldsoconf_dfs 0 os res f = res"
| "read_ldsoconf_dfs (Suc n) os res f =
     (case os_file os f of
        None \<Rightarrow> res
      | Some content \<Rightarrow>
          if skipped_conf f then res
          else foldl (\<lambda>res item. case item of
                   Dir head \<Rightarrow> res @ [head]
                 | Include descendants \<Rightarrow>
                     foldl (read_ldsoconf_dfs n os) res (os_glob os descendants))
                 res (conf_items (text_of content)))"

definition read_ldsoconf :: "os \<Rightarrow> nat \<Rightarrow> path list" where
  "read_ldsoconf os n = read_ldsoconf_dfs n os [] ''/etc/ld.so.conf''"

section \<open>The meaning of a configuration file\<close>

inductive conf_dirs :: "os \<Rightarrow> path \<Rightarrow> path list \<Rightarrow> bool"
  and item_dirs :: "os \<Rightarrow> conf_item list \<Rightarrow> path list \<Rightarrow> bool"
  and files_dirs :: "os \<Rightarrow> path list \<Rightarrow> path list \<Rightarrow> bool"
  for os where
  unreadable: "os_file os f = None \<Longrightarrow> conf_dirs os f []"
| skipped: "skipped_conf f \<Longrightarrow> conf_dirs os f []"
| read: "os_file os f = Some c \<Longrightarrow> \<not> skipped_conf f \<Longrightarrow> item_dirs os (conf_items (text_of c)) ds \<Longrightarrow>
    conf_dirs os f ds"
| no_item: "item_dirs os [] []"
| dir: "item_dirs os items ds \<Longrightarrow> item_dirs os (Dir d # items) (d # ds)"
| inc: "files_dirs os (os_glob os g) ds \<Longrightarrow> item_dirs os items es \<Longrightarrow>
    item_dirs os (Include g # items) (ds @ es)"
| no_file: "files_dirs os [] []"
| a_file: "conf_dirs os f ds \<Longrightarrow> files_dirs os fs es \<Longrightarrow> files_dirs os (f # fs) (ds @ es)"

text \<open>A rank that falls along every include: no include cycle.\<close>

definition includes_ranked :: "os \<Rightarrow> (path \<Rightarrow> nat) \<Rightarrow> bool" where
  "includes_ranked os rank \<longleftrightarrow> (\<forall>f c g f'. os_file os f = Some c \<longrightarrow> \<not> skipped_conf f \<longrightarrow>
     Include g \<in> set (conf_items (text_of c)) \<longrightarrow> f' \<in> set (os_glob os g) \<longrightarrow> rank f' < rank f)"

definition reads_as :: "os \<Rightarrow> (path list \<Rightarrow> path \<Rightarrow> path list) \<Rightarrow> path \<Rightarrow> bool" where
  "reads_as os rd f \<longleftrightarrow> (\<forall>res. \<exists>ds. conf_dirs os f ds \<and> rd res f = res @ ds)"

lemma files_dirs_foldl:
  "\<forall>f \<in> set fs. reads_as os rd f \<Longrightarrow> \<exists>ds. files_dirs os fs ds \<and> foldl rd res fs = res @ ds"
proof (induction fs arbitrary: res)
  case Nil
  then show ?case by (intro exI [of _ "[]"]) (simp add: no_file)
next
  case (Cons f fs)
  then obtain ds where 1: "conf_dirs os f ds" "rd res f = res @ ds"
    unfolding reads_as_def by (meson list.set_intros(1))
  from Cons obtain es where 2: "files_dirs os fs es" "foldl rd (res @ ds) fs = (res @ ds) @ es"
    by (meson list.set_intros(2))
  from a_file [OF 1(1) 2(1)] 1(2) 2(2) show ?case
    by (intro exI [of _ "ds @ es"]) simp
qed

definition conf_step ::
  "os \<Rightarrow> (path list \<Rightarrow> path \<Rightarrow> path list) \<Rightarrow> path list \<Rightarrow> conf_item \<Rightarrow> path list" where
  "conf_step os rd res item =
     (case item of Dir h \<Rightarrow> res @ [h] | Include g \<Rightarrow> foldl rd res (os_glob os g))"

lemma conf_step_simps [simp]:
  "conf_step os rd res (Dir h) = res @ [h]"
  "conf_step os rd res (Include g) = foldl rd res (os_glob os g)"
  by (simp_all add: conf_step_def)

lemma item_dirs_foldl:
  "\<forall>g. Include g \<in> set items \<longrightarrow> (\<forall>f \<in> set (os_glob os g). reads_as os rd f) \<Longrightarrow>
    \<exists>ds. item_dirs os items ds \<and> foldl (conf_step os rd) res items = res @ ds"
proof (induction items arbitrary: res)
  case Nil
  then show ?case by (intro exI [of _ "[]"]) (simp add: no_item)
next
  case (Cons item items)
  have rest: "\<exists>es. item_dirs os items es \<and> foldl (conf_step os rd) r items = r @ es" for r
    using Cons.prems by (intro Cons.IH) auto
  show ?case
  proof (cases item)
    case (Dir h)
    from rest [of "res @ [h]"] obtain es where es: "item_dirs os items es"
      "foldl (conf_step os rd) (res @ [h]) items = (res @ [h]) @ es" by blast
    from dir [OF es(1)] es(2) Dir show ?thesis
      by (intro exI [of _ "h # es"]) simp
  next
    case (Include g)
    then have "\<forall>f \<in> set (os_glob os g). reads_as os rd f" using Cons.prems by simp
    from files_dirs_foldl [OF this, of res] obtain ds where
      ds: "files_dirs os (os_glob os g) ds" "foldl rd res (os_glob os g) = res @ ds" by blast
    from rest [of "res @ ds"] obtain es where es: "item_dirs os items es"
      "foldl (conf_step os rd) (res @ ds) items = (res @ ds) @ es" by blast
    from inc [OF ds(1) es(1)] ds(2) es(2) Include show ?thesis
      by (intro exI [of _ "ds @ es"]) simp
  qed
qed

lemma read_ldsoconf_dfs_dirs:
  assumes "includes_ranked os rank" and "rank f < n"
  shows "reads_as os (read_ldsoconf_dfs n os) f"
  using assms(2)
proof (induction n arbitrary: f)
  case 0
  then show ?case by simp
next
  case (Suc n)
  show ?case
    unfolding reads_as_def
  proof
    fix res
    consider "os_file os f = None" | "skipped_conf f" "os_file os f \<noteq> None"
      | c where "os_file os f = Some c" "\<not> skipped_conf f" by fastforce
    then show "\<exists>ds. conf_dirs os f ds \<and> read_ldsoconf_dfs (Suc n) os res f = res @ ds"
    proof cases
      case 1
      then show ?thesis by (intro exI [of _ "[]"]) (simp add: unreadable)
    next
      case 2
      then show ?thesis by (intro exI [of _ "[]"]) (auto simp: skipped)
    next
      case (3 c)
      have "reads_as os (read_ldsoconf_dfs n os) f'"
        if "Include g \<in> set (conf_items (text_of c))" "f' \<in> set (os_glob os g)" for g f'
      proof (rule Suc.IH)
        have "rank f' < rank f" using assms(1) 3 that unfolding includes_ranked_def by blast
        with Suc.prems show "rank f' < n" by simp
      qed
      then obtain ds where "item_dirs os (conf_items (text_of c)) ds"
        "foldl (conf_step os (read_ldsoconf_dfs n os)) res (conf_items (text_of c)) = res @ ds"
        using item_dirs_foldl [of "conf_items (text_of c)" os "read_ldsoconf_dfs n os" res] by blast
      with 3 show ?thesis
        by (intro exI [of _ ds]) (simp add: read conf_step_def [abs_def])
    qed
  qed
qed

text \<open>The meaning is unique.\<close>

inductive_cases conf_dirsE: "conf_dirs os f ds"
inductive_cases item_dirs_NilE: "item_dirs os [] ds"
inductive_cases item_dirs_DirE: "item_dirs os (Dir d # items) ds"
inductive_cases item_dirs_IncE: "item_dirs os (Include g # items) ds"
inductive_cases files_dirs_NilE: "files_dirs os [] ds"
inductive_cases files_dirs_ConsE: "files_dirs os (f # fs) ds"

lemma dirs_deterministic:
  "conf_dirs os f ds \<Longrightarrow> \<forall>es. conf_dirs os f es \<longrightarrow> es = ds"
  "item_dirs os items ds \<Longrightarrow> \<forall>es. item_dirs os items es \<longrightarrow> es = ds"
  "files_dirs os fs ds \<Longrightarrow> \<forall>es. files_dirs os fs es \<longrightarrow> es = ds"
proof (induction rule: conf_dirs_item_dirs_files_dirs.inducts)
  case (unreadable f)
  then show ?case using conf_dirsE [of os f] by fastforce
next
  case (skipped f)
  show ?case
  proof (intro allI impI)
    fix es assume "conf_dirs os f es"
    then show "es = []" using skipped by cases auto
  qed
next
  case (read f c ds)
  show ?case
  proof (intro allI impI)
    fix es assume "conf_dirs os f es"
    then have "item_dirs os (conf_items (text_of c)) es"
      using read(1) read.hyps by (elim conf_dirsE) simp_all
    with read.IH show "es = ds" by blast
  qed
next
  case no_item
  then show ?case by (blast elim: item_dirs_NilE)
next
  case (dir items ds d)
  then show ?case by (blast elim: item_dirs_DirE)
next
  case (inc g ds items es)
  then show ?case by (blast elim: item_dirs_IncE)
next
  case no_file
  then show ?case by (blast elim: files_dirs_NilE)
next
  case (a_file f ds fs es)
  then show ?case by (blast elim: files_dirs_ConsE)
qed

section \<open>Properties\<close>


definition bytes_of_text :: "string \<Rightarrow> byte list" where
  "bytes_of_text s = map (\<lambda>c. of_nat (of_char c)) s"

lemma text_of_bytes: "text_of (bytes_of_text s) = s"
proof -
  have "char_of (unat (of_nat (of_char c) :: byte)) = c" for c
  proof -
    have "of_char c mod 256 = (of_char c :: nat)" by simp
    then have "(of_char c :: nat) < 256" by (metis mod_less_divisor zero_less_numeral)
    then have "unat (of_nat (of_char c) :: byte) = of_char c"
      by (simp add: unsigned_of_nat take_bit_nat_eq_self)
    then show ?thesis by simp
  qed
  then show ?thesis by (simp add: text_of_def bytes_of_text_def comp_def)
qed

definition conf_host :: os where
  "conf_host = (host_with
     [(''/etc/ld.so.conf'', bytes_of_text (''include /etc/ld.so.conf.d/*.conf # all'' @ [CHR 0x0A] @ ''/opt/lib'')),
      (''/etc/ld.so.conf.d/a.conf'', bytes_of_text ''/usr/local/lib'')])
     \<lparr>os_glob := \<lambda>g. if g = ''/etc/ld.so.conf.d/*.conf'' then [''/etc/ld.so.conf.d/a.conf''] else []\<rparr>"

lemmas eval_conf = conf_items.simps next_token_def is_space_def drop_line_def Let_def

lemma conf_host_items:
  "conf_items (''include /etc/ld.so.conf.d/*.conf # all'' @ [CHR 0x0A] @ ''/opt/lib'') =
     [Include ''/etc/ld.so.conf.d/*.conf'', Dir ''/opt/lib'']"
  "conf_items ''/usr/local/lib'' = [Dir ''/usr/local/lib'']"
  by (simp_all add: eval_conf)


end
