(* ===== verification/Find_Library.thy ===== *)
theory Find_Library
  imports Ldso_Conf
begin

text \<open>
  \<open>FindLibrary\<close> of \<open>dyn_loader.cc\<close>: from the name in a \<open>DT_NEEDED\<close> entry to a path.
  \<open>std::filesystem::directory_iterator\<close> throws when the directory cannot be opened, for
  want of permission or of a descriptor; nobody catches it.
\<close>

section \<open>The search\<close>

definition library_dirs :: "os \<Rightarrow> nat \<Rightarrow> path option \<Rightarrow> path option \<Rightarrow> path list" where
  "library_dirs os n runpath rpath =
     (let sloader_library_path =
        (case os_getenv os ''SLOADER_LIBRARY_PATH'' of None \<Rightarrow> [] | Some s \<Rightarrow> s)
      in (if sloader_library_path \<noteq> [] then [sloader_library_path] else []) @
         (case runpath of None \<Rightarrow> [] | Some d \<Rightarrow> [d]) @
         (case rpath of None \<Rightarrow> [] | Some d \<Rightarrow> [d]) @
         read_ldsoconf os n @
         [''/lib'', ''/usr/lib'', ''/usr/lib64'', ''/usr/lib/x86_64-linux-gnu'', ''.''])"

definition entry_matches :: "string \<Rightarrow> path \<Rightarrow> string \<Rightarrow> bool" where
  "entry_matches searching d e = starts_with (filename (path_append d e)) searching"

fun search_dirs :: "os \<Rightarrow> nat \<Rightarrow> string \<Rightarrow> path list \<Rightarrow> path res" where
  "search_dirs os n searching [] = Inl Aborted"
| "search_dirs os n searching (d # ds) =
     (if \<not> os_is_directory os d then search_dirs os n searching ds
      else if n = 0 then Inl Uncaught
      else case os_listing os d of
        None \<Rightarrow> Inl Uncaught
      | Some entries \<Rightarrow>
          (case find (entry_matches searching d) entries of
             Some e \<Rightarrow> Inr (path_append d e)
           | None \<Rightarrow> search_dirs os n searching ds))"

definition FindLibrary :: "os \<Rightarrow> nat \<Rightarrow> string \<Rightarrow> path option \<Rightarrow> path option \<Rightarrow> path res" where
  "FindLibrary os n library_name runpath rpath =
     (if is_absolute library_name \<and> os_exists os library_name then Inr library_name
      else search_dirs os n (filename library_name) (library_dirs os n runpath rpath))"

section \<open>The first directory with a match\<close>

text \<open>readdir(3) never returns a name with a separator.\<close>

definition plain_entries :: "os \<Rightarrow> bool" where
  "plain_entries os \<longleftrightarrow>
     (\<forall>d es. os_listing os d = Some es \<longrightarrow> (\<forall>e \<in> set es. slash \<notin> set e))"

text \<open>Directory \<open>d\<close> offers an entry that starts with the name.\<close>

definition offers :: "os \<Rightarrow> string \<Rightarrow> path \<Rightarrow> bool" where
  "offers os searching d \<longleftrightarrow> os_is_directory os d \<and>
     (\<exists>es. os_listing os d = Some es \<and> (\<exists>e \<in> set es. prefix searching e))"

lemma entry_matches_prefix:
  "slash \<notin> set e \<Longrightarrow> entry_matches s d e \<longleftrightarrow> prefix s e"
  by (simp add: entry_matches_def filename_append starts_with_def)

lemma find_matches_None:
  assumes "plain_entries os" and "os_listing os d = Some es"
  shows "find (entry_matches s d) es = None \<longleftrightarrow> \<not> (\<exists>e \<in> set es. prefix s e)"
proof -
  have "\<forall>e \<in> set es. slash \<notin> set e" using assms by (auto simp: plain_entries_def)
  then show ?thesis by (auto simp: find_None_iff entry_matches_prefix)
qed

lemma search_dirs_found:
  assumes "plain_entries os" and "search_dirs os n s ds = Inr p"
  shows "\<exists>pre d post. ds = pre @ d # post \<and> (\<forall>d' \<in> set pre. \<not> offers os s d') \<and>
    (\<exists>es. os_listing os d = Some es \<and> filename p \<in> set es) \<and>
    p = path_append d (filename p) \<and> prefix s (filename p)"
  using assms(2)
proof (induction ds)
  case Nil
  then show ?case by simp
next
  case (Cons d ds)
  show ?case
  proof (cases "search_dirs os n s ds = Inr p \<and> \<not> offers os s d")
    case True
    with Cons.IH obtain pre d' post where
      1: "ds = pre @ d' # post" "\<forall>x \<in> set pre. \<not> offers os s x"
      and 2: "\<exists>es. os_listing os d' = Some es \<and> filename p \<in> set es"
        "p = path_append d' (filename p)" "prefix s (filename p)" by blast
    have "d # ds = (d # pre) @ d' # post" "\<forall>x \<in> set (d # pre). \<not> offers os s x"
      using 1 True by auto
    with 2 show ?thesis by blast
  next
    case False
    with Cons.prems obtain es e where
      es: "os_is_directory os d" "os_listing os d = Some es"
      and e: "find (entry_matches s d) es = Some e" and p: "p = path_append d e"
      using find_matches_None [OF assms(1), of d]
      by (auto simp: offers_def split: if_splits option.splits)
    from e have "e \<in> set es" "entry_matches s d e" by (auto simp: find_Some_iff)
    moreover from this(1) es(2) assms(1) have ns: "slash \<notin> set e" by (auto simp: plain_entries_def)
    ultimately have "e \<in> set es" "prefix s e" "filename p = e"
      by (simp_all add: entry_matches_prefix p filename_append)
    with es p show ?thesis by (intro exI [of _ "[]"] exI [of _ d] exI [of _ ds]) simp
  qed
qed

lemma search_dirs_aborts_iff:
  assumes "plain_entries os" and "0 < n"
    and "\<forall>d \<in> set ds. os_is_directory os d \<longrightarrow> os_listing os d \<noteq> None"
  shows "search_dirs os n s ds = Inl Aborted \<longleftrightarrow> (\<forall>d \<in> set ds. \<not> offers os s d)"
  using assms(3)
proof (induction ds)
  case Nil
  then show ?case by simp
next
  case (Cons d ds)
  then have IH: "search_dirs os n s ds = Inl Aborted \<longleftrightarrow> (\<forall>d \<in> set ds. \<not> offers os s d)" by simp
  show ?case
  proof (cases "os_is_directory os d")
    case False
    with IH show ?thesis by (simp add: offers_def)
  next
    case True
    with Cons.prems obtain es where es: "os_listing os d = Some es" by auto
    with find_matches_None [OF assms(1) es, of s] True IH assms(2) show ?thesis
      by (auto simp: offers_def split: option.splits)
  qed
qed

section \<open>Properties\<close>

text \<open>
  C26: a library name that is not an existing absolute path is found in the first directory of
  the search order (\<open>SLOADER_LIBRARY_PATH\<close>, run path, rpath, \<open>ld.so.conf\<close>, the five
  fixed ones) that has an entry starting with the name's last component; the result is an
  entry of that directory, and no earlier directory offers one.
\<close>

theorem FindLibrary_first:
  assumes "plain_entries os" and "FindLibrary os n name rp rr = Inr p"
    and "\<not> (is_absolute name \<and> os_exists os name)"
  shows "\<exists>pre d post. library_dirs os n rp rr = pre @ d # post \<and>
    (\<forall>d' \<in> set pre. \<not> offers os (filename name) d') \<and>
    (\<exists>es. os_listing os d = Some es \<and> filename p \<in> set es) \<and>
    p = path_append d (filename p) \<and> prefix (filename name) (filename p)"
proof -
  from assms(2,3) have "search_dirs os n (filename name) (library_dirs os n rp rr) = Inr p"
    by (simp only: FindLibrary_def if_False)
  from search_dirs_found [OF assms(1) this] show ?thesis by blast
qed

definition lib_host :: os where
  "lib_host = host_with [(''/lib/libm.so.6.debug'', []), (''/lib/libm.so.6'', [])]"

lemma lib_host_plain: "plain_entries lib_host"
  by (auto simp: plain_entries_def lib_host_def filename_no_slash [unfolded comp_def])

lemma lib_host_dirs:
  "library_dirs lib_host 3 None None =
     [''/lib'', ''/usr/lib'', ''/usr/lib64'', ''/usr/lib/x86_64-linux-gnu'', ''.'']"
  by (simp add: library_dirs_def lib_host_def read_ldsoconf_def numeral_3_eq_3)

lemma lib_host_find:
  "FindLibrary lib_host 3 ''libm.so.6'' None None = Inr ''/lib/libm.so.6.debug''"
  by (simp add: FindLibrary_def lib_host_dirs is_absolute_def)
     (simp add: lib_host_def filename_def slash_def entry_matches_def path_append_def
       starts_with_def is_absolute_def)

theorem FindLibrary_first_witness:
  "plain_entries lib_host \<and>
   FindLibrary lib_host 3 ''libm.so.6'' None None = Inr ''/lib/libm.so.6.debug'' \<and>
   prefix (filename ''libm.so.6'') (filename ''/lib/libm.so.6.debug'')"
proof -
  have "\<not> (is_absolute ''libm.so.6'' \<and> os_exists lib_host ''libm.so.6'')"
    by (simp add: is_absolute_def slash_def)
  from FindLibrary_first [OF lib_host_plain lib_host_find this]
  have "prefix (filename ''libm.so.6'') (filename ''/lib/libm.so.6.debug'')" by blast
  with lib_host_plain lib_host_find show ?thesis by blast
qed

text \<open>
  C27: with a descriptor left and every directory of the search order readable,
  \<open>FindLibrary\<close> aborts exactly when the name is not an existing absolute path and no
  directory has an entry that starts with its last component.
\<close>

theorem FindLibrary_aborts_iff:
  assumes "plain_entries os" and "0 < n"
    and "\<forall>d \<in> set (library_dirs os n rp rr). os_is_directory os d \<longrightarrow> os_listing os d \<noteq> None"
  shows "FindLibrary os n name rp rr = Inl Aborted \<longleftrightarrow>
    \<not> (is_absolute name \<and> os_exists os name) \<and>
    (\<forall>d \<in> set (library_dirs os n rp rr). \<not> offers os (filename name) d)"
  using search_dirs_aborts_iff [OF assms] by (auto simp: FindLibrary_def)

theorem FindLibrary_aborts_iff_witness:
  "list_all (\<lambda>d. os_is_directory lib_host d \<longrightarrow> os_listing lib_host d \<noteq> None)
     (library_dirs lib_host 3 None None) \<and>
   FindLibrary lib_host 3 ''libz.so'' None None = Inl Aborted"
proof -
  have r: "\<forall>d \<in> set (library_dirs lib_host 3 None None).
      os_is_directory lib_host d \<longrightarrow> os_listing lib_host d \<noteq> None"
    by (simp add: lib_host_dirs) (simp add: lib_host_def)
  have "\<forall>d \<in> set (library_dirs lib_host 3 None None). \<not> offers lib_host (filename ''libz.so'') d"
    by (simp add: lib_host_dirs) (auto simp: lib_host_def offers_def filename_def slash_def)
  moreover have "\<not> is_absolute ''libz.so''" by (simp add: is_absolute_def slash_def)
  ultimately show ?thesis
    using FindLibrary_aborts_iff [OF lib_host_plain _ r, of "''libz.so''"] r by (simp add: list_all_iff)
qed

end
