(* ===== verification/Dyn_Loader.thy ===== *)
theory Dyn_Loader
  imports Elf_Binary Find_Library
begin

text \<open>
  \<open>class DynLoader\<close> of \<open>dyn_loader.h\<close> and \<open>dyn_loader.cc\<close>, up to the point where
  control passes to the program: loading the dependency graph breadth first and looking up
  symbols. Relocation and execution are in the theories that follow.
\<close>

section \<open>State\<close>

text \<open>
  Two \<open>std::filesystem::path\<close> values are the same key of a \<open>std::map\<close> when their
  elements agree, that is up to repeated separators.
\<close>

fun path_key :: "path \<Rightarrow> path" where
  "path_key [] = []"
| "path_key [c] = [c]"
| "path_key (c # d # cs) =
     (if c = slash \<and> d = slash then path_key (d # cs) else c # path_key (d # cs))"

record DynLoader =
  main_path :: path
  args :: "string list"
  envs :: "string list"
  next_base_addr :: addr
  loaded :: "string set"
  relocated :: "path \<Rightarrow> bool"
  binaries :: "ELFBinary list"

text \<open>The constructor also opens the map file; a stream that cannot open is silent.\<close>

definition DynLoader_ctor ::
  "path \<Rightarrow> string list \<Rightarrow> string list \<Rightarrow> proc \<Rightarrow> DynLoader \<times> proc" where
  "DynLoader_ctor main_path_arg args_arg envs_arg P =
     (\<lparr>main_path = main_path_arg, args = args_arg, envs = envs_arg, next_base_addr = 0x1400000,
       loaded = {}, relocated = (\<lambda>_. False), binaries = []\<rparr>, P\<lparr>fds := fds P - 1\<rparr>)"

section \<open>LoadDependingLibs\<close>

text \<open>\<open>ELFBinary(path)\<close> followed by \<open>Load\<close> at the next base address.\<close>

definition load_binary ::
  "os \<Rightarrow> path \<Rightarrow> DynLoader \<times> proc \<Rightarrow> (ELFBinary \<times> DynLoader \<times> proc) res" where
  "load_binary os path LP =
     (let (L, P) = LP
      in rbind (ELFBinary_ctor os path P) (\<lambda>(b, P).
         rbind (Load os (next_base_addr L) b P) (\<lambda>(next, b, P).
         Inr (b, L\<lparr>binaries := binaries L @ [b], next_base_addr := next\<rparr>, P))))"

type_synonym pending = "string \<times> path option \<times> path option"

definition pending_of :: "ELFBinary \<Rightarrow> pending list" where
  "pending_of b = map (\<lambda>n. (n, runpath b, rpath b)) (neededs b)"

definition skipped_library :: "string \<Rightarrow> bool" where
  "skipped_library name = (contains name ''ld-linux'' \<or> contains name ''libc.so'')"

lemma ctor_fds: "ELFBinary_ctor os path P = Inr (b, P') \<Longrightarrow> Suc (fds P') = fds P"
  by (erule ctor_parts) (auto simp: mmap_file_def dest!: mmap_with_fields)

lemma load_segment_fds:
  "load_segment os (b, P) ph = Inr (b', P') \<Longrightarrow> fds P' = fds P"
proof (cases "p_type ph = PT_LOAD")
  case True
  assume "load_segment os (b, P) ph = Inr (b', P')"
  from this True show ?thesis
    by (rule load_segment_PT_LOAD) (auto simp: mmap_anon_def dest: mmap_with_fields)
qed (simp add: load_segment_def)

interpretation fds_loop: checked_loop "load_segment os" "\<lambda>bP. fds (snd bP) = n" for os n
proof (unfold_locales, goal_cases)
  case (1 bP ph bP')
  then show ?case
    using load_segment_fds [of os "fst bP" "snd bP" ph "fst bP'" "snd bP'"] by simp
qed

lemma Load_fds: "Load os base b P = Inr (nxt, b', P') \<Longrightarrow> fds P' = fds P"
proof (erule Load_parts)
  fix b1
  let ?base = "if e_type (ehdr b) = ET_DYN then base else 0"
  assume "foldR (load_segment os) (b\<lparr>base_addr := ?base, end_addr := ?base\<rparr>, P) (file_phdrs b)
    = Inr (b1, P')"
  from fds_loop.loop_inv [OF _ this] show "fds P' = fds P" by simp
qed

lemma load_binary_fds: "load_binary os path (L, P) = Inr (b, L', P') \<Longrightarrow> Suc (fds P') = fds P"
  by (auto simp: load_binary_def res_simps dest!: ctor_fds Load_fds)

text \<open>
  The queue. Every round either drops an entry or loads a file, and every loaded file keeps a
  descriptor open for good, so the loop ends.
\<close>

function load_queue ::
  "os \<Rightarrow> pending list \<Rightarrow> DynLoader \<Rightarrow> proc \<Rightarrow> (DynLoader \<times> proc) res" where
  "load_queue os [] L P = Inr (L, P)"
| "load_queue os ((library_name, rp, rr) # queue) L P =
     (if library_name \<in> loaded L then load_queue os queue L P
      else if skipped_library library_name then
        load_queue os queue (L\<lparr>loaded := insert library_name (loaded L)\<rparr>) P
      else
        rbind (FindLibrary os (fds P) library_name rp rr) (\<lambda>library_path.
        rbind (load_binary os library_path
                 (L\<lparr>loaded := insert library_name (loaded L)\<rparr>, P)) (\<lambda>(b, L, P).
        load_queue os (queue @ pending_of b) L P)))"
  by pat_completeness auto
termination
  by (relation "measures [\<lambda>(os, q, L, P). fds P, \<lambda>(os, q, L, P). length q]")
     (auto dest: load_binary_fds)

definition LoadDependingLibs :: "os \<Rightarrow> path \<Rightarrow> DynLoader \<times> proc \<Rightarrow> (DynLoader \<times> proc) res" where
  "LoadDependingLibs os root_path LP =
     rbind (load_binary os root_path LP) (\<lambda>(b, L, P).
     load_queue os (pending_of b) (L\<lparr>loaded := insert (filename root_path) (loaded L)\<rparr>) P)"

section \<open>SearchSym\<close>

definition sym_name :: "memory \<Rightarrow> ELFBinary \<Rightarrow> Elf64_Sym \<Rightarrow> string res" where
  "sym_name m b s = read_cstr m (ucast (st_name s) + strtab b)"

definition sym_defined :: "Elf64_Sym \<Rightarrow> bool" where
  "sym_defined s = (st_shndx s \<noteq> SHN_UNDEF)"

definition sym_weak_undef :: "Elf64_Sym \<Rightarrow> bool" where
  "sym_weak_undef s = (st_shndx s = SHN_UNDEF \<and> ELF64_ST_BIND (st_info s) = STB_WEAK)"

definition sym_tls :: "Elf64_Sym \<Rightarrow> bool" where
  "sym_tls s = (st_shndx s \<noteq> SHN_UNDEF \<and> ELF64_ST_TYPE (st_info s) = STT_TLS)"

fun search_syms ::
  "memory \<Rightarrow> string \<Rightarrow> (Elf64_Sym \<Rightarrow> bool) \<Rightarrow> ELFBinary \<Rightarrow> nat \<Rightarrow> Elf64_Sym list \<Rightarrow> nat option res" where
  "search_syms m name p b j [] = Inr None"
| "search_syms m name p b j (s # ss) =
     rbind (sym_name m b s) (\<lambda>n.
       if n = name \<and> p s then Inr (Some j) else search_syms m name p b (Suc j) ss)"

fun search_bins ::
  "memory \<Rightarrow> string \<Rightarrow> (Elf64_Sym \<Rightarrow> bool) \<Rightarrow> nat \<Rightarrow> ELFBinary list \<Rightarrow> (nat \<times> nat) option res" where
  "search_bins m name p i [] = Inr None"
| "search_bins m name p i (b # bs) =
     rbind (search_syms m name p b 0 (symtabs b)) (\<lambda>r.
       case r of Some j \<Rightarrow> Inr (Some (i, j)) | None \<Rightarrow> search_bins m name p (Suc i) bs)"

definition SearchSym :: "memory \<Rightarrow> DynLoader \<Rightarrow> string \<Rightarrow> bool \<Rightarrow> (nat \<times> nat) option res" where
  "SearchSym m L name skip_main =
     (let i0 = if skip_main then 1 else 0; bs = drop i0 (binaries L)
      in rbind (search_bins m name sym_defined i0 bs) (\<lambda>r.
         case r of Some ij \<Rightarrow> Inr (Some ij) | None \<Rightarrow> search_bins m name sym_weak_undef i0 bs))"

section \<open>TLSSymOffset\<close>

text \<open>
  What \<open>libc_mapping.cc\<close> and \<open>tls_secure.cc\<close> provide: the addresses of the replaced
  libc symbols, of libc's thread-local variables, and the block reserved for the program.
\<close>

record libc =
  libc_map :: "string \<Rightarrow> addr option"
  libc_tls_variables :: "string \<Rightarrow> addr option"
  tls_block :: addr

fun tls_search :: "memory \<Rightarrow> string \<Rightarrow> u64 \<Rightarrow> ELFBinary list \<Rightarrow> u64 option res" where
  "tls_search m name offset [] = Inr None"
| "tls_search m name offset (b # bs) =
     rbind (search_syms m name sym_tls b 0 (symtabs b)) (\<lambda>r.
       case r of
         Some j \<Rightarrow>
           (case file_tls b of
              None \<Rightarrow> Inl Indeterminate
            | Some ph \<Rightarrow> Inr (Some (offset - p_memsz ph + st_value (symtabs b ! j))))
       | None \<Rightarrow>
           if has_tls b then
             (case file_tls b of
                None \<Rightarrow> Inl Indeterminate
              | Some ph \<Rightarrow> tls_search m name (offset - p_memsz ph) bs)
           else tls_search m name offset bs)"

definition TLSSymOffset :: "libc \<Rightarrow> memory \<Rightarrow> DynLoader \<Rightarrow> string \<Rightarrow> u64 res" where
  "TLSSymOffset lc m L name =
     rbind (tls_search m name 0 (binaries L)) (\<lambda>r.
       case r of
         Some off \<Rightarrow> Inr off
       | None \<Rightarrow>
           (case libc_tls_variables lc name of
              Some a \<Rightarrow> Inr (tls_block lc + 4096 - a)
            | None \<Rightarrow> Inl Aborted))"

end
