(* ===== verification/Load_Order.thy ===== *)
theory Load_Order
  imports Dyn_Loader
begin

text \<open>
  What \<open>LoadDependingLibs\<close> guarantees: the loading of the dependency graph as a step
  relation (mark a name as loaded, load one file), the invariants every step keeps, and the
  properties of the breadth-first queue over it.
\<close>

section \<open>Steps\<close>

inductive load_step :: "os \<Rightarrow> DynLoader \<times> proc \<Rightarrow> DynLoader \<times> proc \<Rightarrow> bool" for os where
  mark: "load_step os (L, P) (L\<lparr>loaded := insert n (loaded L)\<rparr>, P)"
| load: "load_binary os path (L, P) = Inr (b, L', P') \<Longrightarrow> load_step os (L, P) (L', P')"

inductive_cases load_stepE: "load_step os (L, P) (L', P')"

abbreviation load_steps :: "os \<Rightarrow> DynLoader \<times> proc \<Rightarrow> DynLoader \<times> proc \<Rightarrow> bool" where
  "load_steps os \<equiv> (load_step os)\<^sup>*\<^sup>*"

lemma load_queue_steps: "load_queue os q L P = Inr (L', P') \<Longrightarrow> load_steps os (L, P) (L', P')"
proof (induction os q L P rule: load_queue.induct)
  case (1 os L P)
  then show ?case by simp
next
  case (2 os name rp rr q L P)
  let ?L = "L\<lparr>loaded := insert name (loaded L)\<rparr>"
  have m: "load_step os (L, P) (?L, P)" by (rule mark)
  consider "name \<in> loaded L" | "name \<notin> loaded L" "skipped_library name"
    | path b L1 P1 where "name \<notin> loaded L" "\<not> skipped_library name"
        "FindLibrary os (fds P) name rp rr = Inr path" "load_binary os path (?L, P) = Inr (b, L1, P1)"
        "load_queue os (q @ pending_of b) L1 P1 = Inr (L', P')"
    using 2(4) by (auto simp: res_simps split: if_splits)
  then show ?case
  proof cases
    case 1
    with 2 show ?thesis by simp
  next
    case c: 2
    with 2 have "load_steps os (?L, P) (L', P')" by simp
    with m show ?thesis by (rule converse_rtranclp_into_rtranclp)
  next
    case c: 3
    from 2(3) [OF c(1-4) refl refl c(5)] have "load_steps os (L1, P1) (L', P')" .
    with load [OF c(4)] m show ?thesis
      by (blast intro: converse_rtranclp_into_rtranclp)
  qed
qed

lemma LoadDependingLibs_steps:
  assumes "LoadDependingLibs os root (L, P) = Inr (L', P')"
  shows "load_steps os (L, P) (L', P')"
proof -
  from assms obtain b L1 P1 where l: "load_binary os root (L, P) = Inr (b, L1, P1)"
    and q: "load_queue os (pending_of b) (L1\<lparr>loaded := insert (filename root) (loaded L1)\<rparr>) P1
      = Inr (L', P')"
    by (auto simp: LoadDependingLibs_def res_simps)
  from load [OF l] mark load_queue_steps [OF q] show ?thesis
    by (blast intro: converse_rtranclp_into_rtranclp)
qed

section \<open>Loading one file\<close>

lemma Load_same:
  assumes "Load os base b P = Inr (nxt, b', P')"
  shows "bin_path b' = bin_path b" "ehdr b' = ehdr b" "file_phdrs b' = file_phdrs b"
    "base_addr b' = (if e_type (ehdr b) = ET_DYN then base else 0)" "nxt = slot_ceil (end_addr b')"
proof -
  let ?base = "if e_type (ehdr b) = ET_DYN then base else 0"
  let ?b = "b\<lparr>base_addr := ?base, end_addr := ?base\<rparr>"
  from assms obtain b1 where lp: "foldR (load_segment os) (?b, P) (file_phdrs b) = Inr (b1, P')"
    and pd: "ParseDynamic (mem P') b1 = Inr b'" and n: "nxt = slot_ceil (end_addr b')"
    by (rule Load_parts)
  have "base_addr b1 = ?base \<and> file_phdrs b1 = file_phdrs b \<and> ehdr b1 = ehdr b \<and>
      bin_path b1 = bin_path b"
    using segment_loop.loop_inv [OF _ lp, of ?base "file_phdrs b" "ehdr b" "bin_path b"] by simp
  with ParseDynamic_place [OF pd] n
  show "bin_path b' = bin_path b" "ehdr b' = ehdr b" "file_phdrs b' = file_phdrs b"
    "base_addr b' = ?base" "nxt = slot_ceil (end_addr b')"
    by (simp_all add: same_place_def)
qed

lemma load_binary_appends:
  assumes "load_binary os path (L, P) = Inr (b, L', P')"
  shows "binaries L' = binaries L @ [b]" "loaded L' = loaded L" "bin_path b = path"
    "next_base_addr L' = slot_ceil (end_addr b)" "relocated L' = relocated L"
    "base_addr b = (if e_type (ehdr b) = ET_DYN then next_base_addr L else 0)"
proof -
  from assms obtain b0 P0 nxt where c: "ELFBinary_ctor os path P = Inr (b0, P0)"
    and l: "Load os (next_base_addr L) b0 P0 = Inr (nxt, b, P')"
    and L': "L' = L\<lparr>binaries := binaries L @ [b], next_base_addr := nxt\<rparr>"
    by (auto simp: load_binary_def res_simps)
  have "bin_path b0 = path" by (rule ctor_parts [OF c])
  with Load_same [OF l] L'
  show "binaries L' = binaries L @ [b]" "loaded L' = loaded L" "bin_path b = path"
    "next_base_addr L' = slot_ceil (end_addr b)" "relocated L' = relocated L"
    "base_addr b = (if e_type (ehdr b) = ET_DYN then next_base_addr L else 0)"
    by simp_all
qed

section \<open>Relations every step keeps\<close>

text \<open>
  What a client may conclude about a whole run of the loader from its two kinds of step: a
  reflexive and transitive relation between states that marking a name and loading a file
  satisfy holds between the state before and the state after \<open>LoadDependingLibs\<close>.
\<close>

locale load_relation =
  fixes os :: os and R :: "DynLoader \<times> proc \<Rightarrow> DynLoader \<times> proc \<Rightarrow> bool"
  assumes R_refl: "R s s"
    and R_trans: "R s t \<Longrightarrow> R t u \<Longrightarrow> R s u"
    and R_mark: "R (L, P) (L\<lparr>loaded := insert n (loaded L)\<rparr>, P)"
    and R_load: "load_binary os path (L, P) = Inr (b, L', P') \<Longrightarrow> R (L, P) (L', P')"
begin

lemma step_rel: "load_step os s s' \<Longrightarrow> R s s'"
  by (cases rule: load_step.cases) (auto intro: R_mark R_load)

lemma steps_rel: "load_steps os s s' \<Longrightarrow> R s s'"
  by (induction rule: rtranclp_induct) (auto intro: R_refl R_trans step_rel)

lemma libs_rel: "LoadDependingLibs os root (L, P) = Inr (L', P') \<Longrightarrow> R (L, P) (L', P')"
  by (rule steps_rel) (rule LoadDependingLibs_steps)

end

text \<open>Descriptors are never given back: each loaded file costs one.\<close>

definition descriptors :: "DynLoader \<times> proc \<Rightarrow> nat" where
  "descriptors LP = fds (snd LP) + length (binaries (fst LP))"

interpretation descriptor_count: load_relation os "\<lambda>s s'. descriptors s' = descriptors s" for os
  by unfold_locales
     (auto simp: descriptors_def load_binary_appends(1) dest: load_binary_fds)

text \<open>The arguments of the constructor and the marks of \<open>Relocate\<close> are not touched.\<close>

interpretation load_params: load_relation os
  "\<lambda>s s'. args (fst s') = args (fst s) \<and> envs (fst s') = envs (fst s) \<and>
     main_path (fst s') = main_path (fst s) \<and> relocated (fst s') = relocated (fst s)" for os
  by unfold_locales (auto simp: load_binary_def res_simps)

section \<open>Breadth-first order\<close>

text \<open>
  The specification of the queue. Since dependencies are appended at its end, the entries it
  serves are the initial ones followed by the dependencies of the loaded files in loading
  order; of these, \<open>fresh_entries\<close> are the first entry of every name that is neither seen
  nor skipped, and \<open>found\<close> says that the files are the answers of \<open>FindLibrary\<close> for
  them, one by one, each with one descriptor less.
\<close>

fun fresh_entries :: "string set \<Rightarrow> pending list \<Rightarrow> pending list" where
  "fresh_entries seen [] = []"
| "fresh_entries seen (e # es) =
     (if fst e \<in> seen then fresh_entries seen es
      else if skipped_library (fst e) then fresh_entries (insert (fst e) seen) es
      else e # fresh_entries (insert (fst e) seen) es)"

fun found :: "os \<Rightarrow> nat \<Rightarrow> pending list \<Rightarrow> ELFBinary list \<Rightarrow> bool" where
  "found os k [] bs = (bs = [])"
| "found os k ((name, rp, rr) # es) bs =
     (case bs of [] \<Rightarrow> False
      | b # bs \<Rightarrow> FindLibrary os k name rp rr = Inr (bin_path b) \<and> found os (k - 1) es bs)"

lemma fresh_entries_distinct:
  "distinct (map fst (fresh_entries seen es)) \<and> fst ` set (fresh_entries seen es) \<inter> seen = {}"
proof (induction es arbitrary: seen)
  case Nil
  then show ?case by simp
next
  case (Cons e es)
  have "fst e \<notin> fst ` set (fresh_entries (insert (fst e) seen) es)"
    using Cons [of "insert (fst e) seen"] by blast
  with Cons [of seen] Cons [of "insert (fst e) seen"] show ?case by auto
qed

lemma fresh_entries_set:
  "fst ` set (fresh_entries seen es) = {n \<in> fst ` set es. n \<notin> seen \<and> \<not> skipped_library n}"
proof (induction es arbitrary: seen)
  case Nil
  then show ?case by simp
next
  case (Cons e es)
  show ?case
    using Cons [of seen] Cons [of "insert (fst e) seen"] by auto
qed

lemma pending_names: "fst ` set (concat (map pending_of bs)) = (\<Union>b \<in> set bs. set (neededs b))"
proof (induction bs)
  case Nil
  then show ?case by simp
next
  case (Cons b bs)
  have "fst ` set (pending_of b) = set (neededs b)"
    by (simp add: pending_of_def image_image)
  with Cons show ?case by (simp only: list.map concat.simps set_append image_Un UN_insert list.set)
qed

lemma load_queue_bfs:
  "load_queue os q L P = Inr (L', P') \<Longrightarrow>
    \<exists>bs. binaries L' = binaries L @ bs \<and>
      loaded L' = loaded L \<union> fst ` set (q @ concat (map pending_of bs)) \<and>
      found os (fds P) (fresh_entries (loaded L) (q @ concat (map pending_of bs))) bs"
proof (induction os q L P rule: load_queue.induct)
  case (1 os L P)
  then show ?case by simp
next
  case (2 os name rp rr q L P)
  let ?L = "L\<lparr>loaded := insert name (loaded L)\<rparr>"
  consider "name \<in> loaded L" | "name \<notin> loaded L" "skipped_library name"
    | path b L1 P1 where "name \<notin> loaded L" "\<not> skipped_library name"
        "FindLibrary os (fds P) name rp rr = Inr path" "load_binary os path (?L, P) = Inr (b, L1, P1)"
        "load_queue os (q @ pending_of b) L1 P1 = Inr (L', P')"
    using 2(4) by (auto simp: res_simps split: if_splits)
  then show ?case
  proof cases
    case 1
    with 2 show ?thesis by (auto simp: insert_absorb)
  next
    case c: 2
    with 2(2,4) show ?thesis by auto
  next
    case c: 3
    note one = load_binary_appends [OF c(4)] and n = load_binary_fds [OF c(4)]
    from 2(3) [OF c(1-4) refl refl c(5)] obtain bs where bs: "binaries L' = binaries L1 @ bs"
      "loaded L' = loaded L1 \<union> fst ` set (q @ concat (map pending_of (b # bs)))"
      "found os (fds P1) (fresh_entries (loaded L1) (q @ concat (map pending_of (b # bs)))) bs"
      by auto
    from n have "fds P1 = fds P - 1" by simp
    with bs c one show ?thesis by (intro exI [of _ "b # bs"]) simp
  qed
qed

lemma LoadDependingLibs_order:
  assumes "LoadDependingLibs os root (L, P) = Inr (L', P')"
  shows "\<exists>b bs. binaries L' = binaries L @ b # bs \<and> bin_path b = root \<and>
    loaded L' = insert (filename root) (loaded L) \<union> (\<Union>d \<in> set (b # bs). set (neededs d)) \<and>
    found os (fds P - 1) (fresh_entries (insert (filename root) (loaded L))
      (concat (map pending_of (b # bs)))) bs"
proof -
  from assms obtain b L1 P1 where l: "load_binary os root (L, P) = Inr (b, L1, P1)"
    and q: "load_queue os (pending_of b) (L1\<lparr>loaded := insert (filename root) (loaded L1)\<rparr>) P1
      = Inr (L', P')"
    by (auto simp: LoadDependingLibs_def res_simps)
  from load_binary_fds [OF l] have n: "fds P1 = fds P - 1" by simp
  from load_queue_bfs [OF q] load_binary_appends [OF l] obtain bs
    where "binaries L' = binaries L @ b # bs" "bin_path b = root"
      "loaded L' = insert (filename root) (loaded L) \<union> fst ` set (concat (map pending_of (b # bs)))"
      "found os (fds P1) (fresh_entries (insert (filename root) (loaded L))
        (concat (map pending_of (b # bs)))) bs"
    by auto
  with n pending_names [of "b # bs"] show ?thesis by metis
qed

lemma LoadDependingLibs_shape:
  assumes "LoadDependingLibs os root (L, P) = Inr (L', P')"
  shows "\<exists>b bs. binaries L' = binaries L @ b # bs \<and> bin_path b = root \<and>
    (\<Union>d \<in> set (b # bs). set (neededs d)) \<subseteq> loaded L'"
  using LoadDependingLibs_order [OF assms] by blast

lemma dyn_load_binary:
  assumes "next_base_addr L = 0x1400000"
  shows "\<exists>b P'. load_binary (host_with [(''/a'', dyn_file)]) ''/a'' (L, empty_proc 5) =
       Inr (b, L\<lparr>binaries := binaries L @ [b], next_base_addr := 0x1800000\<rparr>, P') \<and>
     base_addr b = 0x1400000 \<and> end_addr b = 0x1401000 \<and> neededs b = [] \<and>
     e_type (ehdr b) = ET_DYN \<and> relas b = [] \<and> pltrelas b = [] \<and>
     file_phdrs b = [dyn_seg, dyn_seg\<lparr>p_type := PT_DYNAMIC\<rparr>]"
proof -
  obtain b' P' where "Load (host_with [(''/a'', dyn_file)]) 0x1400000 dyn_ctor_bin
          \<lparr>mem = map_at (\<lambda>_. None) 0x7f0000000000 0x1000 (file_byte dyn_file),
           vmas = [(0x7f0000000000, 0x1000, 7)], fds = 4, map_file = []\<rparr> = Inr (0x1800000, b', P')"
    "base_addr b' = 0x1400000" "end_addr b' = 0x1401000" "neededs b' = []" "e_type (ehdr b') = ET_DYN"
    "relas b' = []" "pltrelas b' = []" "file_phdrs b' = [dyn_seg, dyn_seg\<lparr>p_type := PT_DYNAMIC\<rparr>]"
    using dyn_load by blast
  with assms show ?thesis
    by (simp only: load_binary_def dyn_ctor rbind_Inr split Let_def DynLoader.simps) simp
qed

lemma dyn_load_libs:
  assumes "next_base_addr L = 0x1400000"
  shows "\<exists>b P'. LoadDependingLibs (host_with [(''/a'', dyn_file)]) ''/a'' (L, empty_proc 5) =
       Inr (L\<lparr>binaries := binaries L @ [b], next_base_addr := 0x1800000,
              loaded := insert (filename ''/a'') (loaded L)\<rparr>, P') \<and>
     base_addr b = 0x1400000 \<and> end_addr b = 0x1401000 \<and>
     e_type (ehdr b) = ET_DYN \<and> relas b = [] \<and> pltrelas b = [] \<and>
     file_phdrs b = [dyn_seg, dyn_seg\<lparr>p_type := PT_DYNAMIC\<rparr>]"
proof -
  obtain b P' where l: "load_binary (host_with [(''/a'', dyn_file)]) ''/a'' (L, empty_proc 5) =
       Inr (b, L\<lparr>binaries := binaries L @ [b], next_base_addr := 0x1800000\<rparr>, P')"
    and b: "base_addr b = 0x1400000" "end_addr b = 0x1401000" "neededs b = []"
      "e_type (ehdr b) = ET_DYN" "relas b = []" "pltrelas b = []"
      "file_phdrs b = [dyn_seg, dyn_seg\<lparr>p_type := PT_DYNAMIC\<rparr>]"
    using dyn_load_binary [OF assms] by blast
  have "pending_of b = []" using b(3) by (simp add: pending_of_def)
  with l b show ?thesis by (intro exI [of _ b] exI [of _ P']) (simp add: LoadDependingLibs_def)
qed

lemma dyn_ctor_state:
  "DynLoader_ctor ''/a'' [] [] (empty_proc 6) = (\<lparr>main_path = ''/a'', args = [], envs = [],
     next_base_addr = 0x1400000, loaded = {}, relocated = (\<lambda>_. False), binaries = []\<rparr>, empty_proc 5)"
  by (simp add: DynLoader_ctor_def empty_proc_def)

lemma dyn_LoadDependingLibs:
  "\<exists>b L' P'. LoadDependingLibs (host_with [(''/a'', dyn_file)]) ''/a''
       (DynLoader_ctor ''/a'' [] [] (empty_proc 6)) = Inr (L', P') \<and> binaries L' = [b] \<and>
     base_addr b = 0x1400000 \<and> end_addr b = 0x1401000 \<and> e_type (ehdr b) = ET_DYN \<and>
     file_phdrs b = [dyn_seg, dyn_seg\<lparr>p_type := PT_DYNAMIC\<rparr>]"
  unfolding dyn_ctor_state using dyn_load_libs [of "\<lparr>main_path = ''/a'', args = [], envs = [],
     next_base_addr = 0x1400000, loaded = {}, relocated = (\<lambda>_. False), binaries = []\<rparr>"] by fastforce

lemma LoadDependingLibs_grows:
  "LoadDependingLibs os root (L, P) = Inr (L', P') \<Longrightarrow> length (binaries L) < length (binaries L')"
  by (auto simp: LoadDependingLibs_def res_simps load_binary_appends(1) dest!: load_queue_bfs)

section \<open>Placement\<close>

text \<open>
  A bump allocator: an item placed at \<open>start\<close> reaches up to \<open>stop\<close>, and the next one
  starts at \<open>up (stop x)\<close>. If nothing ends before it starts and rounding never goes down,
  no two items overlap.
\<close>

locale bump_allocator =
  fixes start stop :: "'a \<Rightarrow> nat" and up :: "nat \<Rightarrow> nat" and good :: "'a \<Rightarrow> bool"
  assumes up_ge: "good x \<Longrightarrow> stop x \<le> up (stop x)"
    and start_stop: "good x \<Longrightarrow> start x \<le> stop x"
begin

lemma chain_disjoint:
  assumes "\<forall>x \<in> set xs. good x" and "successively (\<lambda>x y. start y = up (stop x)) xs"
  shows "sorted_wrt (\<lambda>x y. stop x \<le> start y) xs"
  using assms
proof (induction xs)
  case Nil
  then show ?case by simp
next
  case (Cons x xs)
  then have IH: "sorted_wrt (\<lambda>x y. stop x \<le> start y) xs"
    by (auto simp: successively_Cons)
  show ?case
  proof (cases xs)
    case Nil
    then show ?thesis by simp
  next
    case (Cons y ys)
    with Cons.prems have y: "start y = up (stop x)" and "good x" "good y" by auto
    then have "stop x \<le> start y" "start y \<le> stop y"
      using up_ge [of x] start_stop [of y] by simp_all
    with IH Cons show ?thesis by force
  qed
qed

end

text \<open>An image that ends where it should: not before it starts, and not at the very top.\<close>

definition image_fits :: "ELFBinary \<Rightarrow> bool" where
  "image_fits b \<longleftrightarrow> base_addr b \<le> end_addr b \<and> unat (end_addr b) + 0x3fffff < 2 ^ 64"

interpretation slots: bump_allocator "\<lambda>b. unat (base_addr b)" "\<lambda>b. unat (end_addr b)"
  "\<lambda>n. (n + 0x3fffff) div 0x400000 * 0x400000" image_fits
  by unfold_locales (auto simp: image_fits_def word_le_nat_alt)

text \<open>The chain of base addresses as the loader leaves it.\<close>

fun placed_from :: "addr \<Rightarrow> ELFBinary list \<Rightarrow> addr \<Rightarrow> bool" where
  "placed_from next_base [] final = (final = next_base)"
| "placed_from next_base (b # bs) final =
     (base_addr b = (if e_type (ehdr b) = ET_DYN then next_base else 0) \<and>
      placed_from (slot_ceil (end_addr b)) bs final)"

lemma placed_from_append:
  "placed_from a (bs @ cs) c \<longleftrightarrow> (\<exists>n. placed_from a bs n \<and> placed_from n cs c)"
  by (induction bs arbitrary: a) auto

interpretation placement: load_relation os
  "\<lambda>s s'. \<exists>new. binaries (fst s') = binaries (fst s) @ new \<and>
     placed_from (next_base_addr (fst s)) new (next_base_addr (fst s'))" for os
proof (unfold_locales, goal_cases)
  case (2 s t u)
  then obtain new1 new2 where "binaries (fst t) = binaries (fst s) @ new1"
    "placed_from (next_base_addr (fst s)) new1 (next_base_addr (fst t))"
    "binaries (fst u) = binaries (fst t) @ new2"
    "placed_from (next_base_addr (fst t)) new2 (next_base_addr (fst u))" by blast
  then show ?case by (intro exI [of _ "new1 @ new2"]) (auto simp: placed_from_append)
qed (auto simp: load_binary_appends)

lemma placed_from_chain:
  assumes "placed_from n bs c" and "\<forall>b \<in> set bs. e_type (ehdr b) = ET_DYN \<and> image_fits b"
  shows "successively (\<lambda>x y. unat (base_addr y) =
    (unat (end_addr x) + 0x3fffff) div 0x400000 * 0x400000) bs"
  using assms
proof (induction n bs c rule: placed_from.induct)
  case (1 n c)
  then show ?case by simp
next
  case (2 n b bs c)
  then show ?case by (cases bs) (auto simp: image_fits_def unat_slot_ceil)
qed

text \<open>Position-independent files on such a chain never overlap.\<close>

lemma placed_from_layout:
  assumes "placed_from n bs c" and "\<forall>b \<in> set bs. e_type (ehdr b) = ET_DYN \<and> image_fits b"
    and "bs \<noteq> []"
  shows "base_addr (hd bs) = n \<and>
    (\<forall>i j. i < j \<longrightarrow> j < length bs \<longrightarrow>
       end_addr (bs ! i) \<le> base_addr (bs ! j) \<and> 0x400000 dvd unat (base_addr (bs ! j)))"
proof -
  from assms have "base_addr (hd bs) = n" by (cases bs) auto
  moreover note chain = placed_from_chain [OF assms(1,2)]
  have "0x400000 dvd unat (base_addr (bs ! j))" if "0 < j" "j < length bs" for j
    using successively_nth [OF chain, of "j - 1"] that by simp
  moreover have "sorted_wrt (\<lambda>x y. unat (end_addr x) \<le> unat (base_addr y)) bs"
    using assms(2) chain by (intro slots.chain_disjoint) auto
  ultimately show ?thesis by (auto simp: sorted_wrt_iff_nth_less word_le_nat_alt)
qed

end
