(* ===== verification/Symbols.thy ===== *)
theory Symbols
  imports Load_Order
begin

text \<open>
  What \<open>SearchSym\<close> promises: the order of symbol resolution. A position is the index of a
  file and the index of a symbol in it, in the order in which the two nested loops visit them.
  The locale \<open>indexed_search\<close> is the contract of a loop that returns the first match; the
  inner and the outer loop are its two instances.
\<close>

section \<open>Loops that return the first match\<close>

locale indexed_search =
  fixes step :: "'x \<Rightarrow> 'v option res" and out :: "nat \<Rightarrow> 'v \<Rightarrow> 'r"
    and search :: "nat \<Rightarrow> 'x list \<Rightarrow> 'r option res"
  assumes search_Nil: "search k [] = Inr None"
    and search_Cons: "search k (x # xs) =
      rbind (step x) (\<lambda>r. case r of Some v \<Rightarrow> Inr (Some (out k v)) | None \<Rightarrow> search (Suc k) xs)"
begin

lemma search_Some:
  "search k xs = Inr (Some r) \<Longrightarrow>
    \<exists>i v. i < length xs \<and> r = out (k + i) v \<and> step (xs ! i) = Inr (Some v) \<and>
      (\<forall>i' < i. step (xs ! i') = Inr None)"
proof (induction xs arbitrary: k)
  case Nil
  then show ?case by (simp add: search_Nil)
next
  case (Cons x xs)
  then obtain o' where o: "step x = Inr o'" by (auto simp: search_Cons res_simps)
  show ?case
  proof (cases o')
    case None
    with Cons.prems o have "search (Suc k) xs = Inr (Some r)" by (simp add: search_Cons)
    from Cons.IH [OF this] obtain i v where "i < length xs" "r = out (Suc k + i) v"
      "step (xs ! i) = Inr (Some v)" "\<forall>i' < i. step (xs ! i') = Inr None" by blast
    with o None show ?thesis
      by (intro exI [of _ "Suc i"] exI [of _ v]) (auto simp: less_Suc_eq_0_disj)
  next
    case (Some v)
    with Cons.prems o show ?thesis
      by (intro exI [of _ 0] exI [of _ v]) (simp add: search_Cons)
  qed
qed

lemma search_None: "search k xs = Inr None \<Longrightarrow> x \<in> set xs \<Longrightarrow> step x = Inr None"
  by (induction xs arbitrary: k)
     (auto simp: search_Cons res_simps split: option.splits)

lemma search_total:
  "(\<And>x. x \<in> set xs \<Longrightarrow> \<exists>r. step x = Inr r) \<Longrightarrow> \<exists>r. search k xs = Inr r"
proof (induction xs arbitrary: k)
  case Nil
  then show ?case by (simp add: search_Nil)
next
  case (Cons x xs)
  from Cons.prems obtain r where "step x = Inr r" by fastforce
  with Cons show ?case by (cases r) (simp_all add: search_Cons)
qed

end

definition sym_matches ::
  "memory \<Rightarrow> string \<Rightarrow> (Elf64_Sym \<Rightarrow> bool) \<Rightarrow> ELFBinary \<Rightarrow> Elf64_Sym \<Rightarrow> unit option res" where
  "sym_matches m name p b s =
     rbind (sym_name m b s) (\<lambda>n. Inr (if n = name \<and> p s then Some () else None))"

interpretation syms: indexed_search "sym_matches m name p b" "\<lambda>j _. j" "search_syms m name p b"
  for m name p b
  by unfold_locales (auto simp: sym_matches_def rbind_assoc intro!: rbind_cong)

interpretation bins: indexed_search "\<lambda>b. search_syms m name p b 0 (symtabs b)" Pair
  "search_bins m name p" for m name p
  by unfold_locales (auto intro!: rbind_cong split: option.splits)

section \<open>One file\<close>

text \<open>Symbol \<open>j\<close> of file \<open>b\<close> is called \<open>name\<close> and satisfies \<open>p\<close>.\<close>

definition sym_at ::
  "memory \<Rightarrow> string \<Rightarrow> (Elf64_Sym \<Rightarrow> bool) \<Rightarrow> ELFBinary \<Rightarrow> nat \<Rightarrow> bool" where
  "sym_at m name p b j \<longleftrightarrow> j < length (symtabs b) \<and>
     sym_name m b (symtabs b ! j) = Inr name \<and> p (symtabs b ! j)"

definition first_sym ::
  "memory \<Rightarrow> string \<Rightarrow> (Elf64_Sym \<Rightarrow> bool) \<Rightarrow> ELFBinary \<Rightarrow> nat \<Rightarrow> bool" where
  "first_sym m name p b j \<longleftrightarrow> sym_at m name p b j \<and> (\<forall>i < j. \<not> sym_at m name p b i)"

lemma sym_matches_Some:
  "sym_matches m name p b s = Inr (Some u) \<Longrightarrow> sym_name m b s = Inr name \<and> p s"
  by (auto simp: sym_matches_def res_simps split: if_splits)

lemma sym_matches_None:
  "sym_matches m name p b s = Inr None \<Longrightarrow> \<not> (sym_name m b s = Inr name \<and> p s)"
  by (auto simp: sym_matches_def res_simps split: if_splits)

lemma search_syms_first:
  assumes "search_syms m name p b 0 (symtabs b) = Inr (Some j)"
  shows "first_sym m name p b j"
proof -
  from syms.search_Some [OF assms] have j: "j < length (symtabs b)"
    "sym_matches m name p b (symtabs b ! j) = Inr (Some ())"
    "\<forall>i < j. sym_matches m name p b (symtabs b ! i) = Inr None" by auto
  from sym_matches_Some [OF j(2)] j(1,3) show ?thesis
    by (auto simp: first_sym_def sym_at_def dest: sym_matches_None)
qed

lemma search_syms_no:
  "search_syms m name p b 0 (symtabs b) = Inr None \<Longrightarrow> \<not> sym_at m name p b j"
  using syms.search_None [of m name p b 0 "symtabs b" "symtabs b ! j"]
  by (auto simp: sym_at_def dest: sym_matches_None)

lemma search_syms_total:
  "(\<And>s. s \<in> set (symtabs b) \<Longrightarrow> \<exists>n. sym_name m b s = Inr n) \<Longrightarrow>
    \<exists>r. search_syms m name p b k (symtabs b) = Inr r"
  by (rule syms.search_total) (fastforce simp: sym_matches_def)

section \<open>All files\<close>

text \<open>Position \<open>(i, j)\<close> is the first one, from file \<open>i0\<close> on, that matches.\<close>

definition first_match ::
  "memory \<Rightarrow> DynLoader \<Rightarrow> string \<Rightarrow> (Elf64_Sym \<Rightarrow> bool) \<Rightarrow> nat \<Rightarrow> nat \<times> nat \<Rightarrow> bool" where
  "first_match m L name p i0 = (\<lambda>(i, j). i0 \<le> i \<and> i < length (binaries L) \<and>
     first_sym m name p (binaries L ! i) j \<and>
     (\<forall>i'. i0 \<le> i' \<longrightarrow> i' < i \<longrightarrow> (\<forall>j'. \<not> sym_at m name p (binaries L ! i') j')))"

definition no_match ::
  "memory \<Rightarrow> DynLoader \<Rightarrow> string \<Rightarrow> (Elf64_Sym \<Rightarrow> bool) \<Rightarrow> nat \<Rightarrow> bool" where
  "no_match m L name p i0 \<longleftrightarrow> (\<forall>i j. i0 \<le> i \<longrightarrow> i < length (binaries L) \<longrightarrow>
     \<not> sym_at m name p (binaries L ! i) j)"

lemma search_bins_spec:
  assumes "search_bins m name p i0 (drop i0 (binaries L)) = Inr r"
  shows "case r of Some ij \<Rightarrow> first_match m L name p i0 ij | None \<Rightarrow> no_match m L name p i0"
proof (cases r)
  case None
  have "\<not> sym_at m name p (binaries L ! i) j" if "i0 \<le> i" "i < length (binaries L)" for i j
  proof -
    have "drop i0 (binaries L) ! (i - i0) \<in> set (drop i0 (binaries L))"
      by (rule nth_mem) (use that in simp)
    then have "binaries L ! i \<in> set (drop i0 (binaries L))" using that by simp
    from bins.search_None [OF assms [unfolded None] this] show ?thesis by (rule search_syms_no)
  qed
  with None show ?thesis by (simp add: no_match_def)
next
  case (Some ij)
  let ?bs = "drop i0 (binaries L)"
  from bins.search_Some [OF assms [unfolded Some]] obtain i j where i: "i < length ?bs"
    "ij = (i0 + i, j)" and f: "search_syms m name p (?bs ! i) 0 (symtabs (?bs ! i)) = Inr (Some j)"
    and n: "\<forall>i' < i. search_syms m name p (?bs ! i') 0 (symtabs (?bs ! i')) = Inr None"
    by blast
  have "\<not> sym_at m name p (binaries L ! i') j'" if "i0 \<le> i'" "i' < i0 + i" for i' j'
  proof -
    from that n i have "search_syms m name p (binaries L ! i') 0 (symtabs (binaries L ! i')) = Inr None"
      by (auto dest: spec [of _ "i' - i0"])
    then show ?thesis by (rule search_syms_no)
  qed
  with search_syms_first [OF f] i Some show ?thesis by (simp add: first_match_def)
qed

lemma search_bins_total:
  assumes "\<And>b s. b \<in> set bs \<Longrightarrow> s \<in> set (symtabs b) \<Longrightarrow> \<exists>n. sym_name m b s = Inr n"
  shows "\<exists>r. search_bins m name p i0 bs = Inr r"
  by (rule bins.search_total) (auto intro!: search_syms_total assms)

text \<open>The specification of a lookup: what the answer \<open>r\<close> must be.\<close>

definition resolves ::
  "memory \<Rightarrow> DynLoader \<Rightarrow> string \<Rightarrow> bool \<Rightarrow> (nat \<times> nat) option \<Rightarrow> bool" where
  "resolves m L name skip_main r \<longleftrightarrow>
     (let i0 = if skip_main then 1 else 0
      in case r of
           Some ij \<Rightarrow> first_match m L name sym_defined i0 ij \<or>
             no_match m L name sym_defined i0 \<and> first_match m L name sym_weak_undef i0 ij
         | None \<Rightarrow> no_match m L name sym_defined i0 \<and> no_match m L name sym_weak_undef i0)"

lemma SearchSym_resolves:
  assumes "SearchSym m L name skip_main = Inr r"
  shows "resolves m L name skip_main r"
proof -
  define i0 :: nat where "i0 = (if skip_main then 1 else 0)"
  from assms obtain r1 where r1: "search_bins m name sym_defined i0 (drop i0 (binaries L)) = Inr r1"
    and rest: "(case r1 of Some ij \<Rightarrow> Inr (Some ij)
      | None \<Rightarrow> search_bins m name sym_weak_undef i0 (drop i0 (binaries L))) = Inr r"
    unfolding SearchSym_def Let_def i0_def [symmetric] by (auto simp: res_simps)
  show ?thesis
  proof (cases r1)
    case None
    with search_bins_spec [OF r1] rest search_bins_spec [of m name sym_weak_undef i0 L r]
    show ?thesis by (auto simp: resolves_def Let_def i0_def [symmetric] split: option.splits)
  next
    case (Some ij)
    with search_bins_spec [OF r1] rest show ?thesis
      by (auto simp: resolves_def Let_def i0_def [symmetric])
  qed
qed

lemma SearchSym_total:
  assumes "\<forall>b \<in> set (binaries L). \<forall>s \<in> set (symtabs b). \<exists>n. sym_name m b s = Inr n"
  shows "\<exists>r. SearchSym m L name skip_main = Inr r"
proof -
  define i0 :: nat where "i0 = (if skip_main then 1 else 0)"
  have "\<exists>r. search_bins m name p i0 (drop i0 (binaries L)) = Inr r" for p
    using assms in_set_dropD by (fastforce intro: search_bins_total)
  then obtain r1 r2 where "search_bins m name sym_defined i0 (drop i0 (binaries L)) = Inr r1"
    "search_bins m name sym_weak_undef i0 (drop i0 (binaries L)) = Inr r2" by metis
  then show ?thesis unfolding SearchSym_def Let_def i0_def [symmetric] by (cases r1) auto
qed

lemma first_match_unique:
  "first_match m L name p i0 ij \<Longrightarrow> first_match m L name p i0 ij' \<Longrightarrow> ij = ij'"
proof (cases ij; cases ij')
  fix i j i' j'
  assume a: "first_match m L name p i0 ij" "first_match m L name p i0 ij'" "ij = (i, j)"
    "ij' = (i', j')"
  then have "i = i'" by (auto simp: first_match_def first_sym_def) (meson linorder_neqE_nat)
  with a have "j = j'" by (auto simp: first_match_def first_sym_def) (meson linorder_neqE_nat)
  with \<open>i = i'\<close> a show ?thesis by simp
qed

lemma first_match_not_none: "first_match m L name p i0 ij \<Longrightarrow> \<not> no_match m L name p i0"
  by (auto simp: first_match_def no_match_def first_sym_def)

lemma resolves_unique:
  "resolves m L name sk r \<Longrightarrow> resolves m L name sk r' \<Longrightarrow> r = r'"
  by (cases r; cases r')
     (auto simp: resolves_def Let_def dest: first_match_unique first_match_not_none)

text \<open>
  C6: \<open>SearchSym\<close> resolves a name to the first defined symbol in load order, and to the
  first weak undefined one only when no file defines it. Whenever the names of all symbols of
  the searched files can be read it returns, and its answer is the only one the specification
  allows.
\<close>

theorem SearchSym_correct:
  assumes "\<forall>b \<in> set (binaries L). \<forall>s \<in> set (symtabs b). \<exists>n. sym_name m b s = Inr n"
  shows "SearchSym m L name skip_main = Inr r \<longleftrightarrow> resolves m L name skip_main r"
  using SearchSym_total [OF assms] SearchSym_resolves resolves_unique by (metis (no_types))

text \<open>Two files that know \<open>f\<close>: the first only refers to it, the second defines it.\<close>

definition f_memory :: memory where
  "f_memory = map_at (\<lambda>_. None) 0x1000 2 (\<lambda>i. if i = 0 then 0x66 else 0)"

definition f_sym :: "u16 \<Rightarrow> Elf64_Sym" where
  "f_sym ndx = \<lparr>st_name = 0, st_info = 0x12, st_other = 0, st_shndx = ndx, st_value = 0x40,
     st_size = 8\<rparr>"

definition f_bin :: "path \<Rightarrow> addr \<Rightarrow> u16 \<Rightarrow> ELFBinary" where
  "f_bin p base ndx = (new_ELFBinary p 0 \<lparr>e_type = ET_DYN, e_entry = 0, e_phoff = 0,
     e_phentsize = 0, e_phnum = 0\<rparr>)\<lparr>strtab := 0x1000, base_addr := base, symtabs := [f_sym ndx]\<rparr>"

definition f_loader :: DynLoader where
  "f_loader = \<lparr>main_path = ''/a'', args = [], envs = [], next_base_addr = 0x1c00000,
     loaded = {}, relocated = (\<lambda>_. False),
     binaries = [f_bin ''/a'' 0x1400000 0, f_bin ''/b'' 0x1800000 1]\<rparr>"

lemma f_sym_name: "b = f_bin p base ndx \<Longrightarrow> sym_name f_memory b (f_sym ndx') = Inr ''f''"
proof -
  have "char_of (102 :: nat) = CHR ''f''" by code_simp
  then show "b = f_bin p base ndx \<Longrightarrow> sym_name f_memory b (f_sym ndx') = Inr ''f''"
    by (simp add: sym_name_def f_sym_def f_bin_def read_cstr.simps f_memory_def
        map_at_def)
qed

theorem SearchSym_correct_witness:
  "list_all (\<lambda>b. list_all (\<lambda>s. \<exists>n. sym_name f_memory b s = Inr n) (symtabs b)) (binaries f_loader) \<and>
   SearchSym f_memory f_loader ''f'' False = Inr (Some (1, 0)) \<and>
   resolves f_memory f_loader ''f'' False (Some (1, 0))"
proof -
  have r: "\<forall>b \<in> set (binaries f_loader). \<forall>s \<in> set (symtabs b). \<exists>n. sym_name f_memory b s = Inr n"
    using f_sym_name by (auto simp: f_loader_def f_bin_def)
  have "SearchSym f_memory f_loader ''f'' False = Inr (Some (1, 0))"
    using f_sym_name [OF refl]
    by (simp add: SearchSym_def f_loader_def) (simp add: f_bin_def sym_defined_def f_sym_def)
  with SearchSym_correct [OF r, of "''f''" False "Some (1, 0)"] r show ?thesis
    by (simp add: list_all_iff)
qed

end
