(* ===== verification/Relocate.thy ===== *)
theory Relocate
  imports Symbols
begin

text \<open>
  \<open>DynLoader::Relocate\<close>: the relocations of every loaded file, and what they leave in
  memory.
\<close>

section \<open>The model\<close>

text \<open>
  The address a symbol resolves to in \<open>GLOB_DAT\<close>, \<open>JUMP_SLOT\<close> and \<open>64\<close>: libc's
  replacement first, then the loaded files. The lookup runs first in any case.
\<close>

definition symbol_addr :: "libc \<Rightarrow> memory \<Rightarrow> DynLoader \<Rightarrow> string \<Rightarrow> addr option res" where
  "symbol_addr lc m L name =
     rbind (SearchSym m L name False) (\<lambda>opt.
       case libc_map lc name of
         Some a \<Rightarrow> Inr (Some a)
       | None \<Rightarrow>
           (case opt of
              Some (bin_index, sym_index) \<Rightarrow>
                rbind (GetSymbolAddr (binaries L ! bin_index) sym_index) (\<lambda>a. Inr (Some a))
            | None \<Rightarrow> Inr None))"

definition copy_source :: "libc \<Rightarrow> memory \<Rightarrow> DynLoader \<Rightarrow> string \<Rightarrow> (addr \<times> u64) res" where
  "copy_source lc m L name =
     rbind (SearchSym m L name True) (\<lambda>opt.
       case libc_map lc name of
         Some a \<Rightarrow> Inr (a, 8)
       | None \<Rightarrow>
           (case opt of
              Some (bin_index, sym_index) \<Rightarrow>
                (let sym = symtabs (binaries L ! bin_index) ! sym_index
                 in Inr (base_addr (binaries L ! bin_index) + st_value sym, st_size sym))
            | None \<Rightarrow> Inl Aborted))"

text \<open>
  One relocation of file \<open>b\<close>. The log line of \<open>GLOB_DAT\<close> and \<open>JUMP_SLOT\<close> reads
  the slot, the one of \<open>COPY\<close> reads eight bytes at the source.
\<close>

definition relocate_one ::
  "libc \<Rightarrow> DynLoader \<Rightarrow> ELFBinary \<Rightarrow> memory \<Rightarrow> Elf64_Rela \<Rightarrow> memory res" where
  "relocate_one lc L b m r =
     rbind (CHECK (unat (ELF64_R_SYM (r_info r)) < length (symtabs b))) (\<lambda>_.
     let s = symtabs b ! unat (ELF64_R_SYM (r_info r))
     in rbind (sym_name m b s) (\<lambda>name.
        let type = ELF64_R_TYPE (r_info r);
            reloc_addr = base_addr b + r_offset r
        in if type = R_X86_64_GLOB_DAT \<or> type = R_X86_64_JUMP_SLOT then
             rbind (symbol_addr lc m L name) (\<lambda>opt.
               case opt of
                 None \<Rightarrow> Inr m
               | Some sym_addr \<Rightarrow>
                   rbind (read_u64 m reloc_addr) (\<lambda>_. write_u64 m reloc_addr sym_addr))
           else if type = R_X86_64_IRELATIVE \<or> type = R_X86_64_RELATIVE then
             write_u64 m reloc_addr (base_addr b + r_addend r)
           else if type = R_X86_64_64 then
             rbind (symbol_addr lc m L name) (\<lambda>opt.
               case opt of
                 None \<Rightarrow> Inr m
               | Some sym_addr \<Rightarrow> write_u64 m reloc_addr (sym_addr + r_addend r))
           else if type = R_X86_64_TPOFF64 then
             rbind (TLSSymOffset lc m L name) (\<lambda>off. write_u64 m reloc_addr off)
           else if type = R_X86_64_DTPMOD64 then write_u64 m reloc_addr 1
           else if type = R_X86_64_DTPOFF64 then Inr m
           else if type = R_X86_64_COPY then
             rbind (copy_source lc m L name) (\<lambda>(src, size).
             rbind (read_u64 m src) (\<lambda>_. memcpy m reloc_addr src size))
           else Inl Aborted))"

definition relocate_bin ::
  "libc \<Rightarrow> DynLoader \<Rightarrow> (path \<Rightarrow> bool) \<times> memory \<Rightarrow> ELFBinary \<Rightarrow> ((path \<Rightarrow> bool) \<times> memory) res" where
  "relocate_bin lc L st b =
     (let (done, m) = st; key = path_key (bin_path b)
      in if done key then Inr (done, m)
         else rbind (foldR (relocate_one lc L b) m (pltrelas b @ relas b)) (\<lambda>m.
              Inr (done(key := True), m)))"

definition Relocate :: "libc \<Rightarrow> DynLoader \<times> proc \<Rightarrow> (DynLoader \<times> proc) res" where
  "Relocate lc LP =
     (let (L, P) = LP
      in rbind (foldR (relocate_bin lc L) (relocated L, mem P) (binaries L)) (\<lambda>(done, m).
         Inr (L\<lparr>relocated := done\<rparr>, P\<lparr>mem := m\<rparr>)))"

section \<open>One relocation\<close>

text \<open>
  The reference semantics of the psABI names: the value a relocation is to store, \<open>None\<close> for
  the ones that store nothing or copy.
\<close>

definition reloc_value ::
  "libc \<Rightarrow> memory \<Rightarrow> DynLoader \<Rightarrow> ELFBinary \<Rightarrow> Elf64_Rela \<Rightarrow> u64 option res" where
  "reloc_value lc m L b r =
     (let type = ELF64_R_TYPE (r_info r)
      in if type \<in> {R_X86_64_RELATIVE, R_X86_64_IRELATIVE} then Inr (Some (base_addr b + r_addend r))
         else if type = R_X86_64_DTPMOD64 then Inr (Some 1)
         else if type \<in> {R_X86_64_GLOB_DAT, R_X86_64_JUMP_SLOT, R_X86_64_64, R_X86_64_TPOFF64} then
           rbind (sym_name m b (symtabs b ! unat (ELF64_R_SYM (r_info r)))) (\<lambda>name.
             if type = R_X86_64_TPOFF64 then rbind (TLSSymOffset lc m L name) (Inr \<circ> Some)
             else rbind (symbol_addr lc m L name) (\<lambda>opt. Inr (map_option
               (\<lambda>a. if type = R_X86_64_64 then a + r_addend r else a) opt)))
         else Inr None)"

abbreviation slot :: "ELFBinary \<Rightarrow> Elf64_Rela \<Rightarrow> addr" where
  "slot b r \<equiv> base_addr b + r_offset r"

abbreviation is_copy :: "Elf64_Rela \<Rightarrow> bool" where
  "is_copy r \<equiv> ELF64_R_TYPE (r_info r) = R_X86_64_COPY"

lemma relocate_one_store:
  assumes "relocate_one lc L b m r = Inr m'" and "\<not> is_copy r"
  shows "\<exists>v. reloc_value lc m L b r = Inr v \<and>
    (case v of Some w \<Rightarrow> write_u64 m (slot b r) w = Inr m' | None \<Rightarrow> m' = m)"
proof -
  from assms obtain n where n: "sym_name m b (symtabs b ! unat (ELF64_R_SYM (r_info r))) = Inr n"
    by (auto simp: relocate_one_def res_simps Let_def)
  note parts = relocate_one_def reloc_value_def Let_def res_simps
  show ?thesis
  proof (cases "symbol_addr lc m L n")
    case (Inl e)
    with assms n show ?thesis by (auto simp: parts split: if_splits)
  next
    case (Inr opt)
    with assms n show ?thesis by (cases opt) (auto simp: parts split: if_splits)
  qed
qed

lemma relocate_one_copy:
  assumes "relocate_one lc L b m r = Inr m'" and "is_copy r"
  obtains name src n where "sym_name m b (symtabs b ! unat (ELF64_R_SYM (r_info r))) = Inr name"
    "copy_source lc m L name = Inr (src, n)" "memcpy m (slot b r) src n = Inr m'"
  using assms by (auto simp: relocate_one_def Let_def res_simps)


text \<open>A relocation never maps or unmaps memory, and changes only its target.\<close>

definition reloc_size :: "libc \<Rightarrow> memory \<Rightarrow> DynLoader \<Rightarrow> ELFBinary \<Rightarrow> Elf64_Rela \<Rightarrow> nat" where
  "reloc_size lc m L b r =
     (if is_copy r then
        (case rbind (sym_name m b (symtabs b ! unat (ELF64_R_SYM (r_info r))))
           (copy_source lc m L) of Inr (_, n) \<Rightarrow> unat n | Inl _ \<Rightarrow> 0)
      else 8)"

lemma relocate_one_frame:
  assumes "relocate_one lc L b m r = Inr m'" and "reloc_size lc m L b r \<le> unat (x - slot b r)"
  shows "m' x = m x"
proof (cases "is_copy r")
  case True
  from assms(1) this show ?thesis
  proof (rule relocate_one_copy)
    fix name src n
    assume a: "sym_name m b (symtabs b ! unat (ELF64_R_SYM (r_info r))) = Inr name"
      "copy_source lc m L name = Inr (src, n)" "memcpy m (slot b r) src n = Inr m'"
    then have "reloc_size lc m L b r = unat n" using True by (simp add: reloc_size_def)
    with memcpy_at [OF a(3), of x] assms(2) show ?thesis by simp
  qed
next
  case False
  from relocate_one_store [OF assms(1) this] assms(2) False show ?thesis
    by (auto simp: reloc_size_def dest: write_u64_frame split: option.splits)
qed

lemma relocate_one_mapped:
  assumes "relocate_one lc L b m r = Inr m'"
  shows "m' x = None \<longleftrightarrow> m x = None"
proof (cases "is_copy r")
  case True
  with assms show ?thesis by (rule relocate_one_copy) (rule memcpy_mapped)
next
  case False
  from relocate_one_store [OF assms False] obtain v
    where "case v of Some w \<Rightarrow> write_u64 m (slot b r) w = Inr m' | None \<Rightarrow> m' = m" by blast
  then show ?thesis by (cases v) (simp_all add: write_u64_mapped)
qed

section \<open>All relocations\<close>

interpretation reloc_loop: checked_loop "relocate_one lc L b"
  "\<lambda>m'. \<forall>x. m' x = None \<longleftrightarrow> m x = None" for lc L b m
  by unfold_locales (simp add: relocate_one_mapped)

lemma relocate_bin_cases:
  assumes "relocate_bin lc L (done, m) b = Inr (done', m')"
  obtains "done (path_key (bin_path b))" "done' = done" "m' = m"
  | "\<not> done (path_key (bin_path b))" "done' = done(path_key (bin_path b) := True)"
    "foldR (relocate_one lc L b) m (pltrelas b @ relas b) = Inr m'"
  using assms by (auto simp: relocate_bin_def Let_def res_simps simp del: foldR_append
      split: if_splits)

interpretation bin_loop: checked_loop "relocate_bin lc L"
  "\<lambda>s. (\<forall>x. snd s x = None \<longleftrightarrow> m x = None) \<and> (\<forall>p. seen p \<longrightarrow> fst s p)" for lc L m seen
proof (unfold_locales, goal_cases)
  case (1 s b s')
  obtain dn m1 dn' m1' where s: "s = (dn, m1)" "s' = (dn', m1')" by (metis surj_pair)
  from 1(2) [unfolded s] show ?case
  proof (cases rule: relocate_bin_cases)
    case a: 2
    from reloc_loop.loop_inv [OF _ a(3), of m] 1(1) a(2) s show ?thesis by simp
  qed (use 1(1) s in simp_all)
qed

lemma Relocate_parts:
  assumes "Relocate lc (L, P) = Inr (L', P')"
  obtains dn m where "foldR (relocate_bin lc L) (relocated L, mem P) (binaries L) = Inr (dn, m)"
    "L' = L\<lparr>relocated := dn\<rparr>" "P' = P\<lparr>mem := m\<rparr>"
  using assms by (auto simp: Relocate_def Let_def res_simps)

lemma relocate_bins_done:
  "(\<And>b. b \<in> set bs \<Longrightarrow> dn (path_key (bin_path b))) \<Longrightarrow>
    foldR (relocate_bin lc L) (dn, m) bs = Inr (dn, m)"
  by (induction bs) (auto simp: relocate_bin_def)

section \<open>The order of the work\<close>

text \<open>
  All relocations \<open>Relocate\<close> applies, in order: the files in load order, each path once, the
  relocations of the procedure linkage table before the others.
\<close>

type_synonym work = "ELFBinary \<times> Elf64_Rela"

fun worklist :: "(path \<Rightarrow> bool) \<Rightarrow> ELFBinary list \<Rightarrow> work list" where
  "worklist dn [] = []"
| "worklist dn (b # bs) =
     (if dn (path_key (bin_path b)) then worklist dn bs
      else map (Pair b) (pltrelas b @ relas b) @ worklist (dn(path_key (bin_path b) := True)) bs)"

definition apply_work :: "libc \<Rightarrow> DynLoader \<Rightarrow> memory \<Rightarrow> work \<Rightarrow> memory res" where
  "apply_work lc L m w = relocate_one lc L (fst w) m (snd w)"

lemma foldR_apply_work:
  "foldR (apply_work lc L) m (map (Pair b) rs) = foldR (relocate_one lc L b) m rs"
  by (induction rs arbitrary: m) (auto simp: apply_work_def intro!: rbind_cong)

lemma relocate_bins_worklist:
  "foldR (relocate_bin lc L) (dn, m) bs =
    rbind (foldR (apply_work lc L) m (worklist dn bs)) (\<lambda>m.
      Inr (\<lambda>p. dn p \<or> p \<in> (path_key \<circ> bin_path) ` set bs, m))"
proof (induction bs arbitrary: dn m)
  case Nil
  then show ?case by simp
next
  case (Cons b bs)
  let ?key = "path_key (bin_path b)"
  show ?case
  proof (cases "dn ?key")
    case True
    have "(\<lambda>p. dn p \<or> p \<in> (path_key \<circ> bin_path) ` set (b # bs)) =
        (\<lambda>p. dn p \<or> p \<in> (path_key \<circ> bin_path) ` set bs)" using True by auto
    with True Cons show ?thesis by (simp add: relocate_bin_def)
  next
    case False
    have "(\<lambda>p. dn p \<or> p \<in> (path_key \<circ> bin_path) ` set (b # bs)) =
        (\<lambda>p. (dn(?key := True)) p \<or> p \<in> (path_key \<circ> bin_path) ` set bs)" by auto
    with False Cons show ?thesis
      by (simp only: relocate_bin_def worklist.simps foldR.simps foldR_append foldR_apply_work
          Let_def split if_False rbind_assoc rbind_Inr)
  qed
qed

lemma Relocate_fields:
  assumes "Relocate lc (L, P) = Inr (L', P')"
  shows "binaries L' = binaries L" "loaded L' = loaded L" "args L' = args L" "envs L' = envs L"
    "\<forall>b \<in> set (binaries L'). relocated L' (path_key (bin_path b))"
  using assms by (auto simp: Relocate_def relocate_bins_worklist rbind_assoc res_simps)

lemma worklist_skips_done:
  "\<forall>b \<in> set bs. dn (path_key (bin_path b)) \<Longrightarrow> worklist dn (bs @ new) = worklist dn new"
  by (induction bs) auto

section \<open>Names survive relocation\<close>

text \<open>The bytes of the symbol names of all files, terminating zeros included.\<close>

definition name_bytes :: "memory \<Rightarrow> DynLoader \<Rightarrow> addr set" where
  "name_bytes m L = {ucast (st_name s) + strtab b + of_nat i | b s n i.
     b \<in> set (binaries L) \<and> s \<in> set (symtabs b) \<and> sym_name m b s = Inr n \<and> i \<le> length n}"

definition names_readable :: "memory \<Rightarrow> DynLoader \<Rightarrow> bool" where
  "names_readable m L \<longleftrightarrow>
     (\<forall>b \<in> set (binaries L). \<forall>s \<in> set (symtabs b). \<exists>n. sym_name m b s = Inr n)"

lemma read_cstr_cong:
  "read_cstr m a = Inr n \<Longrightarrow> (\<And>i. i \<le> length n \<Longrightarrow> m' (a + of_nat i) = m (a + of_nat i)) \<Longrightarrow>
    read_cstr m' a = Inr n"
proof (induction m a arbitrary: n rule: read_cstr.induct)
  case (1 m a)
  from 1(2) obtain c where c: "m a = Some c" by (auto simp: read_cstr.simps split: option.splits)
  from 1(3) [of 0] c have c': "m' a = Some c" by simp
  show ?case
  proof (cases "c = 0")
    case True
    with 1(2) c c' show ?thesis by (simp add: read_cstr.simps)
  next
    case False
    with 1(2) c obtain n' where a: "a \<noteq> - 1" and n': "read_cstr m (a + 1) = Inr n'"
      and n: "n = char_of (unat c) # n'"
      by (auto simp: read_cstr.simps [of m a] res_simps split: if_splits)
    have "m' (a + 1 + of_nat i) = m (a + 1 + of_nat i)" if "i \<le> length n'" for i
      using 1(3) [of "Suc i"] that n by (simp add: add.assoc)
    from 1(1) [OF c False a n' this] n a False c' show ?thesis
      by (simp add: read_cstr.simps [of m' a])
  qed
qed

lemma sym_name_cong:
  assumes "names_readable m L" and "\<And>x. x \<in> name_bytes m L \<Longrightarrow> m' x = m x"
    and "b \<in> set (binaries L)" and "s \<in> set (symtabs b)"
  shows "sym_name m' b s = sym_name m b s"
proof -
  from assms(1,3,4) obtain n where n: "sym_name m b s = Inr n" by (auto simp: names_readable_def)
  have "m' (ucast (st_name s) + strtab b + of_nat i) = m (ucast (st_name s) + strtab b + of_nat i)"
    if "i \<le> length n" for i
    using assms(3,4) n that by (intro assms(2)) (auto simp: name_bytes_def)
  with n show ?thesis unfolding sym_name_def by (metis read_cstr_cong)
qed

lemma search_syms_cong:
  "(\<And>s. s \<in> set ss \<Longrightarrow> sym_name m' b s = sym_name m b s) \<Longrightarrow>
    search_syms m' name p b k ss = search_syms m name p b k ss"
  by (induction ss arbitrary: k) (auto intro!: rbind_cong)

lemma search_bins_cong:
  "(\<And>b s. b \<in> set bs \<Longrightarrow> s \<in> set (symtabs b) \<Longrightarrow> sym_name m' b s = sym_name m b s) \<Longrightarrow>
    search_bins m' name p k bs = search_bins m name p k bs"
proof (induction bs arbitrary: k)
  case Nil
  then show ?case by simp
next
  case (Cons b bs)
  then have "search_syms m' name p b 0 (symtabs b) = search_syms m name p b 0 (symtabs b)"
    by (intro search_syms_cong) simp
  with Cons show ?case by (auto intro!: rbind_cong split: option.splits)
qed

lemma tls_search_cong:
  "(\<And>b s. b \<in> set bs \<Longrightarrow> s \<in> set (symtabs b) \<Longrightarrow> sym_name m' b s = sym_name m b s) \<Longrightarrow>
    tls_search m' name off bs = tls_search m name off bs"
proof (induction bs arbitrary: off)
  case Nil
  then show ?case by simp
next
  case (Cons b bs)
  then have "search_syms m' name sym_tls b 0 (symtabs b) = search_syms m name sym_tls b 0 (symtabs b)"
    by (intro search_syms_cong) simp
  with Cons show ?case by (auto intro!: rbind_cong split: option.splits)
qed

text \<open>So every lookup gives the same answer as long as no name is overwritten.\<close>

lemma lookups_cong:
  assumes "names_readable m L" and "\<And>x. x \<in> name_bytes m L \<Longrightarrow> m' x = m x"
  shows "SearchSym m' L name sk = SearchSym m L name sk"
    and "symbol_addr lc m' L name = symbol_addr lc m L name"
    and "copy_source lc m' L name = copy_source lc m L name"
    and "TLSSymOffset lc m' L name = TLSSymOffset lc m L name"
    and "names_readable m' L" and "name_bytes m' L = name_bytes m L"
proof -
  have same: "sym_name m' b s = sym_name m b s" if "b \<in> set (binaries L)" "s \<in> set (symtabs b)" for b s
    using assms that by (rule sym_name_cong)
  then have "search_bins m' name p k (drop k (binaries L)) = search_bins m name p k (drop k (binaries L))"
    for p k using in_set_dropD by (fastforce intro: search_bins_cong)
  then show ss: "SearchSym m' L name sk = SearchSym m L name sk" for sk
    by (simp only: SearchSym_def Let_def)
  then show "symbol_addr lc m' L name = symbol_addr lc m L name"
    "copy_source lc m' L name = copy_source lc m L name"
    by (simp_all add: symbol_addr_def copy_source_def)
  show "TLSSymOffset lc m' L name = TLSSymOffset lc m L name"
    by (simp add: TLSSymOffset_def tls_search_cong [OF same])
  show "names_readable m' L" using assms(1) by (simp add: names_readable_def same)
  show "name_bytes m' L = name_bytes m L"
    unfolding name_bytes_def using same by (intro Collect_cong) metis
qed

section \<open>Values after relocation\<close>

text \<open>Item \<open>w\<close> leaves address \<open>x\<close> alone; it names a symbol the file has.\<close>

definition spares :: "libc \<Rightarrow> memory \<Rightarrow> DynLoader \<Rightarrow> work \<Rightarrow> addr \<Rightarrow> bool" where
  "spares lc m L w x \<longleftrightarrow> reloc_size lc m L (fst w) (snd w) \<le> unat (x - slot (fst w) (snd w))"

definition spares_names :: "libc \<Rightarrow> memory \<Rightarrow> DynLoader \<Rightarrow> work list \<Rightarrow> bool" where
  "spares_names lc m L W \<longleftrightarrow> names_readable m L \<and>
     (\<forall>w \<in> set W. fst w \<in> set (binaries L) \<and> (\<forall>x \<in> name_bytes m L. spares lc m L w x))"

definition sym_in_range :: "work \<Rightarrow> bool" where
  "sym_in_range w \<longleftrightarrow> unat (ELF64_R_SYM (r_info (snd w))) < length (symtabs (fst w))"

lemma apply_work_in_range: "apply_work lc L m w = Inr m' \<Longrightarrow> sym_in_range w"
  by (auto simp: apply_work_def relocate_one_def sym_in_range_def res_simps)

lemma works_in_range: "foldR (apply_work lc L) m W = Inr m' \<Longrightarrow> \<forall>w \<in> set W. sym_in_range w"
  by (induction W arbitrary: m) (auto simp: res_simps dest: apply_work_in_range)

lemma work_cong:
  assumes "names_readable m L" and "\<And>x. x \<in> name_bytes m L \<Longrightarrow> m' x = m x"
    and "fst w \<in> set (binaries L)" and "sym_in_range w"
  shows "spares lc m' L w x = spares lc m L w x"
    and "reloc_value lc m' L (fst w) (snd w) = reloc_value lc m L (fst w) (snd w)"
proof -
  let ?s = "symtabs (fst w) ! unat (ELF64_R_SYM (r_info (snd w)))"
  have "?s \<in> set (symtabs (fst w))" using assms(4) by (simp add: sym_in_range_def)
  from sym_name_cong [OF assms(1-3) this] have n: "sym_name m' (fst w) ?s = sym_name m (fst w) ?s" .
  note lk = lookups_cong [OF assms(1,2)]
  have f: "copy_source lc m' L = copy_source lc m L" "symbol_addr lc m' L = symbol_addr lc m L"
    "TLSSymOffset lc m' L = TLSSymOffset lc m L" by (intro ext lk; assumption)+
  from n f show "spares lc m' L w x = spares lc m L w x"
    by (simp only: spares_def reloc_size_def)
  show "reloc_value lc m' L (fst w) (snd w) = reloc_value lc m L (fst w) (snd w)"
    by (simp only: reloc_value_def n f)
qed

lemma apply_work_frame:
  "apply_work lc L m w = Inr m' \<Longrightarrow> spares lc m L w x \<Longrightarrow> m' x = m x"
  unfolding apply_work_def spares_def by (rule relocate_one_frame)

lemma apply_work_names:
  assumes "apply_work lc L m w = Inr m1" and "spares_names lc m L (w # W)"
    and "\<forall>v \<in> set W. sym_in_range v"
  shows "spares_names lc m1 L W" "name_bytes m1 L = name_bytes m L"
    "x \<in> name_bytes m L \<Longrightarrow> m1 x = m x"
    "v \<in> set W \<Longrightarrow> spares lc m1 L v y = spares lc m L v y"
    "v \<in> set W \<Longrightarrow> reloc_value lc m1 L (fst v) (snd v) = reloc_value lc m L (fst v) (snd v)"
proof -
  from assms(2) have nr: "names_readable m L" by (simp add: spares_names_def)
  have same: "m1 x = m x" if "x \<in> name_bytes m L" for x
    using assms(2) that by (intro apply_work_frame [OF assms(1)]) (simp add: spares_names_def)
  then show "x \<in> name_bytes m L \<Longrightarrow> m1 x = m x" .
  have "fst v \<in> set (binaries L)" if "v \<in> set W" for v
    using assms(2) that by (simp add: spares_names_def)
  note c = work_cong [OF nr same this]
  from c assms(3) show "v \<in> set W \<Longrightarrow> spares lc m1 L v y = spares lc m L v y"
    "v \<in> set W \<Longrightarrow> reloc_value lc m1 L (fst v) (snd v) = reloc_value lc m L (fst v) (snd v)" by auto
  show nb: "name_bytes m1 L = name_bytes m L" using lookups_cong(6) [OF nr same] .
  show "spares_names lc m1 L W"
    using assms(2,3) c(1) lookups_cong(5) [OF nr same] by (simp add: spares_names_def nb)
qed

lemma works_frame:
  "foldR (apply_work lc L) m W = Inr m' \<Longrightarrow> spares_names lc m L W \<Longrightarrow>
    (\<And>w. w \<in> set W \<Longrightarrow> spares lc m L w x) \<Longrightarrow> m' x = m x"
proof (induction W arbitrary: m)
  case Nil
  then show ?case by simp
next
  case (Cons w W)
  then obtain m1 where one: "apply_work lc L m w = Inr m1"
    and rest: "foldR (apply_work lc L) m1 W = Inr m'" by (auto simp: res_simps)
  note nm = apply_work_names [OF one Cons.prems(2) works_in_range [OF rest]]
  from nm(4) Cons.prems(3) have "m' x = m1 x" by (intro Cons.IH [OF rest nm(1)]) simp
  with apply_work_frame [OF one] Cons.prems(3) show ?case by simp
qed

text \<open>No later item touches the slot of an earlier one.\<close>

definition slots_apart :: "libc \<Rightarrow> memory \<Rightarrow> DynLoader \<Rightarrow> work list \<Rightarrow> bool" where
  "slots_apart lc m L W \<longleftrightarrow>
     sorted_wrt (\<lambda>w v. \<forall>k < 8. spares lc m L v (slot (fst w) (snd w) + of_nat k)) W"

lemma apply_work_value:
  assumes "apply_work lc L m (b, r) = Inr m'" and "reloc_value lc m L b r = Inr (Some v)"
  shows "read_u64 m' (slot b r) = Inr v"
proof -
  have "\<not> is_copy r" using assms(2) by (auto simp: reloc_value_def Let_def)
  from relocate_one_store [OF assms(1) [unfolded apply_work_def fst_conv snd_conv] this] assms(2)
  have "write_u64 m (slot b r) v = Inr m'" by auto
  then show ?thesis by (rule read_write_u64)
qed

lemma works_values:
  "foldR (apply_work lc L) m W = Inr m' \<Longrightarrow> spares_names lc m L W \<Longrightarrow> slots_apart lc m L W \<Longrightarrow>
    (b, r) \<in> set W \<Longrightarrow> reloc_value lc m L b r = Inr (Some v) \<Longrightarrow> read_u64 m' (slot b r) = Inr v"
proof (induction W arbitrary: m)
  case Nil
  then show ?case by simp
next
  case (Cons w W)
  then obtain m1 where one: "apply_work lc L m w = Inr m1"
    and rest: "foldR (apply_work lc L) m1 W = Inr m'" by (auto simp: res_simps)
  note nm = apply_work_names [OF one Cons.prems(2) works_in_range [OF rest]]
  show ?case
  proof (cases "(b, r) \<in> set W")
    case True
    have "slots_apart lc m1 L W"
      using Cons.prems(3) nm(4) unfolding slots_apart_def
      by (auto elim: sorted_wrt_mono_rel [rotated])
    from Cons.IH [OF rest nm(1) this True] nm(5) [OF True] Cons.prems(5) show ?thesis by simp
  next
    case False
    with Cons.prems(4) have w: "w = (b, r)" by auto
    have "m' (slot b r + of_nat k) = m1 (slot b r + of_nat k)" if "k < 8" for k
      using Cons.prems(3) nm(4) that w
      by (intro works_frame [OF rest nm(1)]) (simp add: slots_apart_def)
    then have "read_u64 m' (slot b r) = read_u64 m1 (slot b r)" by (rule read_u64_cong)
    with apply_work_value [OF one [unfolded w] Cons.prems(5)] show ?thesis by simp
  qed
qed

section \<open>Properties\<close>


text \<open>
  C19: \<open>Relocate\<close> works on every path once. After it has returned, all loaded files are
  marked, the loaded set is as before, and a further call, say after \<open>dlopen\<close> has appended
  files, applies only the relocations of files whose path is new.
\<close>

theorem Relocate_incremental:
  assumes "Relocate lc (L, P) = Inr (L', P')"
  shows "(\<forall>b \<in> set (binaries L'). relocated L' (path_key (bin_path b))) \<and>
    binaries L' = binaries L \<and>
    worklist (relocated L') (binaries L' @ new) = worklist (relocated L') new \<and>
    Relocate lc' (L', P') = Inr (L', P')"
proof -
  from assms obtain dn m where
    f: "foldR (relocate_bin lc L) (relocated L, mem P) (binaries L) = Inr (dn, m)"
    and L': "L' = L\<lparr>relocated := dn\<rparr>" "P' = P\<lparr>mem := m\<rparr>" by (rule Relocate_parts)
  from f have dn: "\<forall>b \<in> set (binaries L'). dn (path_key (bin_path b))"
    by (auto simp: relocate_bins_worklist res_simps L')
  have "worklist (relocated L') (binaries L' @ new) = worklist (relocated L') new"
    using dn by (intro worklist_skips_done) (simp add: L')
  moreover have "Relocate lc' (L', P') = Inr (L', P')"
    using dn by (simp add: Relocate_def relocate_bins_done L')
  ultimately show ?thesis using dn by (simp add: L')
qed

text \<open>\<open>Relocate\<close> writes into mapped memory only: it maps and unmaps nothing.\<close>

lemma Relocate_wf:
  assumes "Relocate lc (L, P) = Inr (L', P')"
  shows "vmas P' = vmas P" "mem P' x = None \<longleftrightarrow> mem P x = None" "proc_wf P \<Longrightarrow> proc_wf P'"
proof -
  from assms obtain dn m where
    f: "foldR (relocate_bin lc L) (relocated L, mem P) (binaries L) = Inr (dn, m)"
    and P': "P' = P\<lparr>mem := m\<rparr>" by (rule Relocate_parts)
  from bin_loop.loop_inv [OF _ f, of "mem P" "\<lambda>_. False"]
  have d: "m x = None \<longleftrightarrow> mem P x = None" for x by simp
  then show "vmas P' = vmas P" "mem P' x = None \<longleftrightarrow> mem P x = None" "proc_wf P \<Longrightarrow> proc_wf P'"
    by (simp_all add: P' proc_wf_mem)
qed

text \<open>
  \<open>Relocate\<close> is its work list. The nested loops of the code, with their skip of paths
  seen before, do exactly what applying the listed relocations one after the other does,
  failures included: the files in load order, each path once, the procedure linkage table
  before the rest.
\<close>

lemma Relocate_is_worklist:
  "Relocate lc (L, P) =
    rbind (foldR (apply_work lc L) (mem P) (worklist (relocated L) (binaries L))) (\<lambda>m.
      Inr (L\<lparr>relocated := \<lambda>p. relocated L p \<or> p \<in> (path_key \<circ> bin_path) ` set (binaries L)\<rparr>,
           P\<lparr>mem := m\<rparr>))"
  by (simp add: Relocate_def relocate_bins_worklist rbind_assoc)

text \<open>
  A second copy of a path is loaded but never relocated. When two names of the dependency
  graph lead \<open>FindLibrary\<close> to the same file, the relocations of the later copy are not on
  the work list at all.
\<close>

lemma second_copy_not_relocated:
  assumes "b \<in> set pre" and "path_key (bin_path c) = path_key (bin_path b)"
  shows "worklist dn (pre @ c # post) = worklist dn (pre @ post)"
  using assms(1)
proof (induction pre arbitrary: dn)
  case Nil
  then show ?case by simp
next
  case (Cons a pre)
  have skip: "worklist dn (pre @ c # post) = worklist dn (pre @ post)"
    if "dn (path_key (bin_path c))" for dn pre
    using that by (induction pre arbitrary: dn) auto
  show ?case
  proof (cases "a = b")
    case True
    with skip assms(2) show ?thesis by (simp add: skip)
  next
    case False
    with Cons show ?thesis by auto
  qed
qed

lemma GetSymbolAddr_match:
  "resolves m L name sk (Some (i, j)) \<Longrightarrow> GetSymbolAddr (binaries L ! i) j =
    Inr (st_value (symtabs (binaries L ! i) ! j) + base_addr (binaries L ! i))"
  by (auto simp: resolves_def first_match_def first_sym_def sym_at_def GetSymbolAddr_def Let_def
      rbind_CHECK)

lemma symbol_addr_file:
  assumes "SearchSym m L name False = Inr (Some (i, j))" and "libc_map lc name = None"
  shows "symbol_addr lc m L name =
    Inr (Some (st_value (symtabs (binaries L ! i) ! j) + base_addr (binaries L ! i)))"
  using assms GetSymbolAddr_match [OF SearchSym_resolves [OF assms(1)]]
  by (simp add: symbol_addr_def)

text \<open>
  C21: which address a symbol gets. A name of libc's table gets the table's address whatever
  the files define; any other name gets the run-time address of the symbol the resolution
  order prescribes, and none if there is no such symbol.
\<close>

theorem symbol_addr_correct:
  assumes "names_readable m L"
  shows "symbol_addr lc m L name = Inr (Some a) \<longleftrightarrow>
    libc_map lc name = Some a \<or>
    libc_map lc name = None \<and> (\<exists>i j. resolves m L name False (Some (i, j)) \<and>
      a = base_addr (binaries L ! i) + st_value (symtabs (binaries L ! i) ! j))"
proof -
  obtain opt where s: "SearchSym m L name False = Inr opt"
    using SearchSym_total assms unfolding names_readable_def by blast
  note u = SearchSym_resolves [OF s]
  show ?thesis
  proof (cases "libc_map lc name")
    case (Some a)
    with s show ?thesis by (auto simp: symbol_addr_def)
  next
    case None
    show ?thesis
    proof (cases opt)
      case n: None
      with s None have "symbol_addr lc m L name = Inr None" by (simp add: symbol_addr_def)
      moreover have "\<not> resolves m L name False (Some ij)" for ij
        using resolves_unique [OF u, of "Some ij"] n by auto
      ultimately show ?thesis using None by simp
    next
      case (Some ij)
      obtain i j where ij: "ij = (i, j)" by fastforce
      have "resolves m L name False (Some ij') \<longleftrightarrow> ij' = (i, j)" for ij'
        using resolves_unique [OF u, of "Some ij'"] u Some ij by auto
      with None symbol_addr_file [OF s [unfolded Some ij] None] show ?thesis
        by (auto simp: add.commute)
    qed
  qed
qed

text \<open>
  A weak symbol nobody defines does not become null. The ELF rules give such a reference
  the value 0; here it gets the base address of the first file that refers to it, so a test of
  its address for null succeeds and a call through it runs into the ELF header.
\<close>

lemma weak_undefined_gets_base:
  assumes "names_readable m L" and "libc_map lc name = None"
    and "no_match m L name sym_defined 0" and "first_match m L name sym_weak_undef 0 (i, j)"
    and "st_value (symtabs (binaries L ! i) ! j) = 0"
  shows "symbol_addr lc m L name = Inr (Some (base_addr (binaries L ! i)))"
proof -
  obtain opt where s: "SearchSym m L name False = Inr opt"
    using SearchSym_total assms(1) unfolding names_readable_def by blast
  have "resolves m L name False (Some (i, j))" using assms(3,4) by (simp add: resolves_def)
  with SearchSym_resolves [OF s] have "opt = Some (i, j)" by (rule resolves_unique)
  from symbol_addr_file [OF s [unfolded this] assms(2)] assms(5) show ?thesis by simp
qed

definition supported_types :: "u64 list" where
  "supported_types = [R_X86_64_GLOB_DAT, R_X86_64_JUMP_SLOT, R_X86_64_IRELATIVE,
     R_X86_64_RELATIVE, R_X86_64_64, R_X86_64_TPOFF64, R_X86_64_DTPMOD64, R_X86_64_DTPOFF64,
     R_X86_64_COPY]"

text \<open>
  Relocations the loader rejects. A symbol index past the symbol table leaves with status
  1, a relocation type outside the nine supported ones aborts; neither writes anything.
\<close>

lemma relocate_one_rejects:
  "(relocate_one lc L b m r = Inl (ExitWith 1) \<or> sym_in_range (b, r)) \<and>
   (sym_in_range (b, r) \<and> sym_name m b (symtabs b ! unat (ELF64_R_SYM (r_info r))) = Inr name \<and>
      ELF64_R_TYPE (r_info r) \<notin> set supported_types \<longrightarrow>
    relocate_one lc L b m r = Inl Aborted)"
  by (simp add: relocate_one_def sym_in_range_def supported_types_def CHECK_def)

section \<open>A sample\<close>

text \<open>The file \<open>/a\<close> calls \<open>f\<close> of \<open>/b\<close> through one slot of its linkage table.\<close>

definition f_rela :: Elf64_Rela where
  "f_rela = \<lparr>r_offset = 0x10, r_info = 7, r_addend = 0\<rparr>"

definition plt_loader :: DynLoader where
  "plt_loader = f_loader\<lparr>binaries :=
     [(f_bin ''/a'' 0x1400000 0)\<lparr>pltrelas := [f_rela]\<rparr>, f_bin ''/b'' 0x1800000 1]\<rparr>"

definition no_libc :: libc where
  "no_libc = \<lparr>libc_map = (\<lambda>_. None), libc_tls_variables = (\<lambda>_. None), tls_block = 0x10000\<rparr>"

definition plt_proc :: proc where
  "plt_proc = \<lparr>mem = map_at f_memory 0x1400010 8 (\<lambda>_. 0), vmas = [(0x1000, 2, 3), (0x1400010, 8, 3)],
     fds = 0, map_file = []\<rparr>"

lemma plt_bin_sel:
  "b \<in> set (binaries plt_loader) \<Longrightarrow> strtab b = 0x1000 \<and> (\<exists>k. symtabs b = [f_sym k])"
  by (auto simp: plt_loader_def f_bin_def)

lemma plt_name:
  assumes "b \<in> set (binaries plt_loader)"
  shows "sym_name (mem plt_proc) b (f_sym k) = Inr ''f''"
proof -
  have "char_of (102 :: nat) = CHR ''f''" by code_simp
  then show ?thesis using plt_bin_sel [OF assms]
    by (simp add: sym_name_def f_sym_def read_cstr.simps f_memory_def plt_proc_def map_at_def)
qed

lemma plt_names: "names_readable (mem plt_proc) plt_loader"
  using plt_name plt_bin_sel by (fastforce simp: names_readable_def)

lemma plt_SearchSym: "SearchSym (mem plt_proc) plt_loader ''f'' False = Inr (Some (1, 0))"
proof -
  let ?a = "(f_bin ''/a'' 0x1400000 0)\<lparr>pltrelas := [f_rela]\<rparr>" and ?b = "f_bin ''/b'' 0x1800000 1"
  have bs: "binaries plt_loader = [?a, ?b]" by (simp add: plt_loader_def)
  then have n: "sym_name (mem plt_proc) ?a (f_sym k) = Inr ''f''"
    "sym_name (mem plt_proc) ?b (f_sym k) = Inr ''f''" for k by (simp_all add: plt_name)
  have s: "symtabs ?a = [f_sym 0]" "symtabs ?b = [f_sym 1]" by (simp_all add: f_bin_def)
  have d: "\<not> sym_defined (f_sym 0)" "sym_defined (f_sym 1)" by (simp_all add: sym_defined_def f_sym_def)
  show ?thesis by (simp add: SearchSym_def bs n s d)
qed

lemma plt_symbol_addr: "symbol_addr no_libc (mem plt_proc) plt_loader ''f'' = Inr (Some 0x1800040)"
  using symbol_addr_file [OF plt_SearchSym, of no_libc]
  by (simp add: no_libc_def plt_loader_def f_bin_def f_sym_def)

lemma plt_name_bytes: "x \<in> name_bytes (mem plt_proc) plt_loader \<Longrightarrow> x = 0x1000 \<or> x = 0x1001"
proof -
  assume "x \<in> name_bytes (mem plt_proc) plt_loader"
  then obtain b s n i where b: "b \<in> set (binaries plt_loader)" "s \<in> set (symtabs b)"
    "sym_name (mem plt_proc) b s = Inr n" "i \<le> length n" "x = ucast (st_name s) + strtab b + of_nat i"
    by (auto simp: name_bytes_def)
  from plt_bin_sel [OF b(1)] b(2) obtain k where k: "s = f_sym k" "strtab b = 0x1000" by auto
  with b(3) plt_name [OF b(1), of k] have "n = ''f''" by simp
  with b(4) have "i = 0 \<or> i = 1" by auto
  with b k show ?thesis by (auto simp: f_sym_def)
qed


lemma plt_worklist:
  "worklist (relocated plt_loader) (binaries plt_loader) =
     [((f_bin ''/a'' 0x1400000 0)\<lparr>pltrelas := [f_rela]\<rparr>, f_rela)]"
  by (simp add: plt_loader_def f_loader_def f_bin_def new_ELFBinary_def slash_def)

lemma plt_types: "ELF64_R_TYPE (r_info f_rela) = R_X86_64_JUMP_SLOT"
  "ELF64_R_SYM (r_info f_rela) = 0"
  by (simp_all add: f_rela_def ELF64_R_TYPE_def ELF64_R_SYM_def)

lemma plt_value:
  "reloc_value no_libc (mem plt_proc) plt_loader ((f_bin ''/a'' 0x1400000 0)\<lparr>pltrelas := [f_rela]\<rparr>)
     f_rela = Inr (Some 0x1800040)"
proof -
  let ?a = "(f_bin ''/a'' 0x1400000 0)\<lparr>pltrelas := [f_rela]\<rparr>"
  have "?a \<in> set (binaries plt_loader)" by (simp add: plt_loader_def)
  then have "sym_name (mem plt_proc) ?a (f_sym 0) = Inr ''f''" by (rule plt_name)
  moreover have "symtabs ?a ! 0 = f_sym 0" by (simp add: f_bin_def)
  ultimately show ?thesis by (simp add: reloc_value_def plt_types plt_symbol_addr)
qed

lemma plt_Relocate: "\<exists>L' P'. Relocate no_libc (plt_loader, plt_proc) = Inr (L', P')"
proof -
  let ?a = "(f_bin ''/a'' 0x1400000 0)\<lparr>pltrelas := [f_rela]\<rparr>"
  have "?a \<in> set (binaries plt_loader)" by (simp add: plt_loader_def)
  then have n: "sym_name (mem plt_proc) ?a (f_sym 0) = Inr ''f''" by (rule plt_name)
  have t: "symtabs ?a = [f_sym 0]" "base_addr ?a + r_offset f_rela = 0x1400010"
    by (simp_all add: f_bin_def f_rela_def)
  obtain m where w: "write_u64 (mem plt_proc) 0x1400010 0x1800040 = Inr m"
    by (simp add: eval_simps plt_proc_def)
  have r: "\<exists>v. read_u64 (mem plt_proc) 0x1400010 = Inr v"
    by (simp add: eval_simps plt_proc_def)
  have "relocate_one no_libc plt_loader ?a (mem plt_proc) f_rela = Inr m"
    using n t w r by (auto simp: relocate_one_def plt_types plt_symbol_addr CHECK_def)
  then show ?thesis
    by (simp add: Relocate_def relocate_bins_worklist plt_worklist apply_work_def)
qed

lemma plt_spares:
  "spares_names no_libc (mem plt_proc) plt_loader (worklist (relocated plt_loader) (binaries plt_loader))"
proof -
  let ?a = "(f_bin ''/a'' 0x1400000 0)\<lparr>pltrelas := [f_rela]\<rparr>"
  have "spares no_libc (mem plt_proc) plt_loader (?a, f_rela) x"
    if "x \<in> name_bytes (mem plt_proc) plt_loader" for x
    using plt_name_bytes [OF that]
    by (auto simp: spares_def reloc_size_def plt_types) (simp_all add: f_bin_def f_rela_def)
  then show ?thesis
    unfolding spares_names_def plt_worklist using plt_names by (simp add: plt_loader_def)
qed

section \<open>The properties on the sample\<close>


theorem Relocate_incremental_witness:
  "\<exists>L' P'. Relocate no_libc (plt_loader, plt_proc) = Inr (L', P') \<and>
     Relocate no_libc (L', P') = Inr (L', P')"
  using plt_Relocate Relocate_incremental by blast

theorem symbol_addr_correct_witness:
  "names_readable (mem plt_proc) plt_loader \<and>
   symbol_addr no_libc (mem plt_proc) plt_loader ''f'' = Inr (Some 0x1800040) \<and>
   (\<exists>i j. resolves (mem plt_proc) plt_loader ''f'' False (Some (i, j)))"
  using symbol_addr_correct [OF plt_names, of no_libc "''f''" "0x1800040"] plt_names plt_symbol_addr
  by (auto simp: no_libc_def)

end
