(* ===== verification/Tls.thy ===== *)
theory Tls
  imports Symbols
begin

text \<open>
  Static thread-local storage: the block reserved by \<open>tls_secure.cc\<close> just below the thread
  pointer, the part of \<open>DynLoader::Execute\<close> that fills it, and \<open>sloader_tls_get_addr\<close>
  of \<open>libc_mapping.cc\<close>. \<open>T\<close> stands for the address of
  \<open>sloader_dummy_to_secure_tls_space\<close>; the thread pointer is \<open>T + 4096\<close>.
\<close>

section \<open>The model\<close>

definition TLS_SPACE_FOR_LOADEE :: u64 where
  "TLS_SPACE_FOR_LOADEE = 4096"

text \<open>The initial value of \<open>sloader_tls_offset\<close>.\<close>

definition sloader_tls_offset :: u64 where
  "sloader_tls_offset = 4096"

definition write_sloader_dummy_to_secure_tls_space :: "addr \<Rightarrow> memory \<Rightarrow> memory res" where
  "write_sloader_dummy_to_secure_tls_space T m =
     foldR (\<lambda>m (i, b). write_bytes m (T + i) [b]) m
       [(0, 0xaa), (1, 0xaa), (2, 0xaa), (3, 0xaa),
        (TLS_SPACE_FOR_LOADEE - 4, 0xab), (TLS_SPACE_FOR_LOADEE - 3, 0xcd),
        (TLS_SPACE_FOR_LOADEE - 2, 0xab), (TLS_SPACE_FOR_LOADEE - 1, 0xcd)]"

text \<open>The size of the block all files need together, as the first loop sums it up.\<close>

definition add_tls_size :: "u64 \<Rightarrow> ELFBinary \<Rightarrow> u64 res" where
  "add_tls_size tls_block_size b =
     (if has_tls b then
        (case file_tls b of
           None \<Rightarrow> Inl Indeterminate
         | Some ph \<Rightarrow> Inr (tls_block_size + p_memsz ph))
      else Inr tls_block_size)"

text \<open>One round of the copy loop; the state is memory and \<open>sloader_tls_offset\<close>.\<close>

definition init_tls_one :: "addr \<Rightarrow> memory \<times> u64 \<Rightarrow> ELFBinary \<Rightarrow> (memory \<times> u64) res" where
  "init_tls_one T st b =
     (let (m, off) = st
      in if has_tls b then
           (case file_tls b of
              None \<Rightarrow> Inl Indeterminate
            | Some ph \<Rightarrow>
                rbind (memcpy m (T + off - p_memsz ph) (base_addr b + p_vaddr ph) (p_memsz ph)) (\<lambda>m.
                rbind (memset m (T + off - (p_memsz ph - p_filesz ph)) 0
                         (p_memsz ph - p_filesz ph)) (\<lambda>m.
                rbind (write_u64 m (T + off) (T + off)) (\<lambda>m.
                Inr (m, off - p_memsz ph)))))
         else Inr (m, off))"

definition init_tls :: "addr \<Rightarrow> ELFBinary list \<Rightarrow> memory \<times> u64 \<Rightarrow> (memory \<times> u64) res" where
  "init_tls T bs st =
     rbind (foldR add_tls_size 0 bs) (\<lambda>tls_block_size.
     rbind (CHECK (tls_block_size \<le> 4096)) (\<lambda>_.
     foldR (init_tls_one T) st bs))"

text \<open>\<open>ti\<close> is the address of a \<open>tls_index\<close>, whose second word is \<open>ti_offset\<close>.\<close>

definition sloader_tls_get_addr :: "addr \<Rightarrow> memory \<times> u64 \<Rightarrow> addr \<Rightarrow> addr res" where
  "sloader_tls_get_addr T st ti =
     rbind (read_u64 (fst st) (ti + 8)) (\<lambda>ti_offset. Inr (T + snd st + ti_offset))"

interpretation secure_loop: checked_loop "\<lambda>m (i, b). write_bytes m (T + i) [b]"
  "\<lambda>m. m x = None \<longleftrightarrow> unmapped" for T x unmapped
  by unfold_locales (auto dest: ram.wr_mapped_iff [where x = x] simp del: write_bytes.simps)

lemma write_secure_mapped:
  "write_sloader_dummy_to_secure_tls_space T m = Inr m' \<Longrightarrow> m' x = None \<longleftrightarrow> m x = None"
  unfolding write_sloader_dummy_to_secure_tls_space_def
  by (rule secure_loop.loop_inv) (rule refl)

section \<open>Blocks\<close>

definition tls_memsz :: "ELFBinary \<Rightarrow> nat" where
  "tls_memsz b = (if has_tls b then case file_tls b of Some ph \<Rightarrow> unat (p_memsz ph) | None \<Rightarrow> 0 else 0)"

definition tls_sum :: "ELFBinary list \<Rightarrow> nat" where
  "tls_sum bs = sum_list (map tls_memsz bs)"

lemma tls_sum_simps [simp]:
  "tls_sum [] = 0" "tls_sum (b # bs) = tls_memsz b + tls_sum bs"
  "tls_sum (bs @ cs) = tls_sum bs + tls_sum cs"
  by (simp_all add: tls_sum_def)

text \<open>Addresses \<open>a\<close> up to \<open>a + n\<close>, when they do not wrap.\<close>

abbreviation in_range :: "nat \<Rightarrow> nat \<Rightarrow> addr \<Rightarrow> bool" where
  "in_range lo n x \<equiv> lo \<le> unat x \<and> unat x < lo + n"

lemma unat_block:
  fixes T off n :: u64
  assumes "unat n \<le> unat off" and "unat T + unat off < 2 ^ 64"
  shows "unat (T + off - n) = unat T + unat off - unat n"
proof -
  from assms have "n \<le> T + off" by (simp add: word_le_nat_alt unat_add_u64)
  from unat_sub [OF this] show ?thesis using assms(2) by (simp add: unat_add_u64)
qed

lemma init_tls_one_step:
  assumes "init_tls_one T (m, off) b = Inr (m', off')" and "has_tls b" and "file_tls b = Some ph"
    and "unat (p_memsz ph) \<le> unat off" and "p_filesz ph \<le> p_memsz ph"
    and "unat T + unat off + 8 \<le> 2 ^ 64"
  defines "lo \<equiv> unat T + unat off - unat (p_memsz ph)"
  shows "off' = off - p_memsz ph" and "read_u64 m' (T + off) = Inr (T + off)"
    and "\<not> in_range lo (unat (p_memsz ph) + 8) x \<Longrightarrow> m' x = m x"
    and "in_range lo (unat (p_memsz ph)) x \<Longrightarrow> m' x =
      (if unat x < lo + unat (p_filesz ph) then m (base_addr b + p_vaddr ph + (x - (T + off - p_memsz ph)))
       else Some 0)"
proof -
  let ?n = "p_memsz ph" and ?z = "p_memsz ph - p_filesz ph"
  from assms(1-3) obtain m1 m2 where
    c: "memcpy m (T + off - ?n) (base_addr b + p_vaddr ph) ?n = Inr m1"
    and s: "memset m1 (T + off - ?z) 0 ?z = Inr m2"
    and w: "write_u64 m2 (T + off) (T + off) = Inr m'" and o: "off' = off - ?n"
    by (auto simp: init_tls_one_def res_simps)
  show "off' = off - ?n" by (rule o)
  show "read_u64 m' (T + off) = Inr (T + off)" using w by (rule read_write_u64)
  have z: "unat ?z = unat ?n - unat (p_filesz ph)" using assms(5) by (rule unat_sub)
  have u: "unat (T + off) = unat T + unat off" using assms(6) by (intro unat_add_u64) simp
  have b1: "unat (T + off - ?n) = lo" unfolding lo_def using assms(4,6) by (intro unat_block) auto
  have b2: "unat (T + off - ?z) = lo + unat (p_filesz ph)"
    using unat_block [of ?z off T] assms(4,5,6) z
    by (simp add: lo_def word_le_nat_alt)
  have hi: "lo + unat ?n = unat T + unat off" using assms(4) by (simp add: lo_def)
  have fz: "unat (p_filesz ph) \<le> unat ?n" using assms(5) by (simp add: word_le_nat_alt)
  have r1: "unat (x - (T + off - ?n)) < unat ?n \<longleftrightarrow> in_range lo (unat ?n) x"
    using unat_offset_range [of "T + off - ?n" "unat ?n" x] b1 hi assms(6) by simp
  have r2: "unat (x - (T + off - ?z)) < unat ?z \<longleftrightarrow>
      in_range (lo + unat (p_filesz ph)) (unat ?n - unat (p_filesz ph)) x"
    using unat_offset_range [of "T + off - ?z" "unat ?z" x] b2 z hi fz assms(6) by simp
  have r3: "unat (x - (T + off)) < 8 \<longleftrightarrow> in_range (unat T + unat off) 8 x"
    using unat_offset_range [of "T + off" 8 x] u assms(6) by simp
  note at = memcpy_at [OF c, of x] memset_at [OF s, of x] write_u64_at [OF w, of x]
  show "\<not> in_range lo (unat ?n + 8) x \<Longrightarrow> m' x = m x"
    using at r1 r2 r3 hi fz by auto
  show "in_range lo (unat ?n) x \<Longrightarrow> m' x =
      (if unat x < lo + unat (p_filesz ph) then m (base_addr b + p_vaddr ph + (x - (T + off - ?n)))
       else Some 0)"
    using at r1 r2 r3 hi fz by auto
qed

section \<open>The loop\<close>

text \<open>
  The constructor sets \<open>has_tls\<close> and \<open>file_tls\<close> together; the file part of the
  segment is not larger than the whole.
\<close>

definition tls_sane :: "ELFBinary \<Rightarrow> bool" where
  "tls_sane b = (case file_tls b of None \<Rightarrow> \<not> has_tls b
     | Some ph \<Rightarrow> has_tls b \<and> p_filesz ph \<le> p_memsz ph)"

lemma init_tls_one_none: "\<not> has_tls b \<Longrightarrow> init_tls_one T st b = Inr st"
  by (cases st) (simp add: init_tls_one_def)

lemma tls_loop_none:
  "\<forall>b \<in> set bs. \<not> has_tls b \<Longrightarrow> foldR (init_tls_one T) st bs = Inr st"
  by (induction bs) (auto simp: init_tls_one_none)

lemma tls_loop_frame:
  "foldR (init_tls_one T) (m, off) bs = Inr (m', off') \<Longrightarrow> list_all tls_sane bs \<Longrightarrow>
    tls_sum bs \<le> unat off \<Longrightarrow> unat T + unat off + 8 \<le> 2 ^ 64 \<Longrightarrow>
    unat off' + tls_sum bs = unat off \<and>
    (\<forall>x. \<not> in_range (unat T + unat off') (tls_sum bs + 8) x \<longrightarrow> m' x = m x)"
proof (induction bs arbitrary: m off)
  case Nil
  then show ?case by simp
next
  case (Cons b bs)
  then obtain m1 off1 where one: "init_tls_one T (m, off) b = Inr (m1, off1)"
    and rest: "foldR (init_tls_one T) (m1, off1) bs = Inr (m', off')" by (auto simp: res_simps)
  show ?case
  proof (cases "has_tls b")
    case False
    with one have "m1 = m" "off1 = off" by (simp_all add: init_tls_one_none)
    with Cons.IH [OF rest] Cons.prems False show ?thesis by (simp add: tls_memsz_def)
  next
    case True
    with Cons.prems(2) obtain ph where ph: "file_tls b = Some ph" "p_filesz ph \<le> p_memsz ph"
      by (auto simp: tls_sane_def split: option.splits)
    with True have sz: "tls_memsz b = unat (p_memsz ph)" by (simp add: tls_memsz_def)
    with Cons.prems(3) have le: "unat (p_memsz ph) \<le> unat off" by simp
    note st = init_tls_one_step [OF one True ph(1) le ph(2) Cons.prems(4)]
    have "unat off1 = unat off - unat (p_memsz ph)"
      using st(1) unat_sub le by (simp add: word_le_nat_alt)
    with le sz have o1: "unat off1 + tls_memsz b = unat off" by simp
    with Cons.prems have "tls_sum bs \<le> unat off1" "unat T + unat off1 + 8 \<le> 2 ^ 64" by simp_all
    with Cons.IH [OF rest] Cons.prems(2) have IH: "unat off' + tls_sum bs = unat off1"
      "\<And>x. \<not> in_range (unat T + unat off') (tls_sum bs + 8) x \<Longrightarrow> m' x = m1 x" by simp_all
    have "m' x = m x" if x: "\<not> in_range (unat T + unat off') (tls_sum (b # bs) + 8) x" for x
    proof -
      have "\<not> in_range (unat T + unat off') (tls_sum bs + 8) x" using x by simp arith
      moreover have "\<not> in_range (unat T + unat off - unat (p_memsz ph)) (unat (p_memsz ph) + 8) x"
        using x o1 IH(1) sz by simp arith
      ultimately show ?thesis using IH(2) st(3) by simp
    qed
    with IH(1) o1 show ?thesis by simp
  qed
qed

text \<open>The image of a file's thread-local segment lies outside the block.\<close>

definition tls_source_apart :: "addr \<Rightarrow> ELFBinary \<Rightarrow> bool" where
  "tls_source_apart T b \<longleftrightarrow> (\<forall>ph j. file_tls b = Some ph \<longrightarrow> j < unat (p_memsz ph) \<longrightarrow>
     \<not> in_range (unat T) 4104 (base_addr b + p_vaddr ph + of_nat j))"

lemma block_offset:
  fixes T off n :: u64
  assumes "unat n \<le> unat off" and "unat T + unat off < 2 ^ 64" and "i < unat n"
  shows "unat (T + off - n + of_nat i) = unat T + unat off - unat n + i"
proof -
  have "unat (of_nat i :: u64) = i" using assms(3) unat_u64_less [of n] by (intro unat_of_nat_u64) simp
  moreover have "unat (T + off - n) = unat T + unat off - unat n" using assms(1,2) by (rule unat_block)
  ultimately show ?thesis using unat_add_u64 [of "T + off - n" "of_nat i"] assms by simp
qed

lemma offset_eq: "unat (off :: u64) + n = 4096 \<Longrightarrow> off = 4096 - of_nat n"
proof -
  assume h: "unat off + n = 4096"
  have "off + of_nat n = of_nat (unat off + n)" by simp
  then have "off + of_nat n = 4096" by (simp only: h) simp
  then show ?thesis by (simp add: eq_diff_eq)
qed

text \<open>The three phases of the loop as seen from the block of one file.\<close>

lemma tls_own_block:
  assumes "init_tls_one T (m1, off1) b = Inr (m2, off2)" and "has_tls b" and "file_tls b = Some ph"
    and "unat (p_memsz ph) \<le> unat off1" and "p_filesz ph \<le> p_memsz ph"
    and "unat T + unat off1 + 8 \<le> 2 ^ 64" and "i < unat (p_memsz ph)"
  shows "unat off2 + unat (p_memsz ph) = unat off1"
    and "unat (T + off1 - p_memsz ph + of_nat i) = unat T + unat off2 + i"
    and "m2 (T + off1 - p_memsz ph + of_nat i) =
      (if i < unat (p_filesz ph) then m1 (base_addr b + p_vaddr ph + of_nat i) else Some 0)"
proof -
  note st = init_tls_one_step [OF assms(1-6)]
  let ?x = "T + off1 - p_memsz ph + of_nat i"
  have ux: "unat ?x = unat T + unat off1 - unat (p_memsz ph) + i"
    using assms(4,6,7) by (intro block_offset) auto
  have "unat off2 = unat off1 - unat (p_memsz ph)"
    using st(1) unat_sub assms(4) by (simp add: word_le_nat_alt)
  with assms(4) ux show "unat off2 + unat (p_memsz ph) = unat off1" "unat ?x = unat T + unat off2 + i"
    by simp_all
  have r: "in_range (unat T + unat off1 - unat (p_memsz ph)) (unat (p_memsz ph)) ?x"
    and c: "unat ?x < unat T + unat off1 - unat (p_memsz ph) + unat (p_filesz ph) \<longleftrightarrow>
      i < unat (p_filesz ph)"
    using ux assms(7) by auto
  have d: "?x - (T + off1 - p_memsz ph) = of_nat i" by simp
  from st(4) [OF r] show "m2 ?x = (if i < unat (p_filesz ph)
      then m1 (base_addr b + p_vaddr ph + of_nat i) else Some 0)" unfolding c d .
qed

lemma tls_later_frame:
  assumes "foldR (init_tls_one T) (m2, off2) post = Inr (m', off')" and "list_all tls_sane post"
    and "tls_sum post \<le> unat off2" and "unat T + unat off2 + 8 \<le> 2 ^ 64"
    and "unat T + unat off2 + 8 \<le> unat x \<or> (\<forall>c \<in> set post. \<not> has_tls c)"
  shows "m' x = m2 x"
proof (cases "\<forall>c \<in> set post. \<not> has_tls c")
  case True
  with assms(1) show ?thesis by (simp add: tls_loop_none)
next
  case False
  note f = tls_loop_frame [OF assms(1-4)]
  have "unat T + unat off' + (tls_sum post + 8) \<le> unat x" using f assms(5) False by auto
  with f show ?thesis by simp
qed

lemma tls_source_kept:
  assumes "foldR (init_tls_one T) (m, 4096) pre = Inr (m1, off1)" and "list_all tls_sane pre"
    and "tls_sum pre \<le> 4096" and "unat T + 4104 \<le> 2 ^ 64"
    and "file_tls b = Some ph" and "tls_source_apart T b" and "i < unat (p_memsz ph)"
  shows "m1 (base_addr b + p_vaddr ph + of_nat i) = m (base_addr b + p_vaddr ph + of_nat i)"
proof -
  have "tls_sum pre \<le> unat (4096 :: u64)" "unat T + unat (4096 :: u64) + 8 \<le> 2 ^ 64"
    using assms(3,4) by simp_all
  note f = tls_loop_frame [OF assms(1,2) this]
  have "\<not> in_range (unat T) 4104 (base_addr b + p_vaddr ph + of_nat i)"
    using assms(5-7) by (simp add: tls_source_apart_def)
  then have "\<not> in_range (unat T + unat off1) (tls_sum pre + 8) (base_addr b + p_vaddr ph + of_nat i)"
    using f by auto
  with f show ?thesis by blast
qed

text \<open>What the block of one file holds when the loop has run.\<close>

lemma tls_block_bytes:
  assumes "foldR (init_tls_one T) (m, sloader_tls_offset) (pre @ b # post) = Inr (m', off')"
    and "list_all tls_sane (pre @ b # post)" and "tls_sum (pre @ b # post) \<le> 4096"
    and "unat T + 4104 \<le> 2 ^ 64" and "has_tls b" and "file_tls b = Some ph"
    and "tls_source_apart T b" and "i < unat (p_memsz ph)"
    and "8 \<le> i \<or> (\<forall>c \<in> set post. \<not> has_tls c)"
  shows "m' (T + 4096 - of_nat (tls_sum (pre @ [b])) + of_nat i) =
    (if i < unat (p_filesz ph) then m (base_addr b + p_vaddr ph + of_nat i) else Some 0)"
proof -
  from assms(1) obtain m1 off1 m2 off2 where
    1: "foldR (init_tls_one T) (m, 4096) pre = Inr (m1, off1)"
    and 2: "init_tls_one T (m1, off1) b = Inr (m2, off2)"
    and 3: "foldR (init_tls_one T) (m2, off2) post = Inr (m', off')"
    by (auto simp: res_simps sloader_tls_offset_def)
  from assms(2) assms(6) have sane: "list_all tls_sane pre" "p_filesz ph \<le> p_memsz ph"
    "list_all tls_sane post" using assms(5) by (auto simp: tls_sane_def)
  have sz: "tls_memsz b = unat (p_memsz ph)" using assms(5,6) by (simp add: tls_memsz_def)
  have o1: "unat off1 + tls_sum pre = 4096" using tls_loop_frame [OF 1 sane(1)] assms(3,4) by simp
  have le: "unat (p_memsz ph) \<le> unat off1" using assms(3) sz o1 by simp
  have top: "unat T + unat off1 + 8 \<le> 2 ^ 64" using assms(4) o1 by simp
  note own = tls_own_block [OF 2 assms(5,6) le sane(2) top assms(8)]
  have "m' (T + off1 - p_memsz ph + of_nat i) = m2 (T + off1 - p_memsz ph + of_nat i)"
    using assms(3,9) sz o1 own top by (intro tls_later_frame [OF 3 sane(3)]) auto
  also note own(3)
  also have "m1 (base_addr b + p_vaddr ph + of_nat i) = m (base_addr b + p_vaddr ph + of_nat i)"
    using assms by (intro tls_source_kept [OF 1 sane(1)]) simp_all
  also have "T + off1 - p_memsz ph + of_nat i = T + 4096 - of_nat (tls_sum (pre @ [b])) + of_nat i"
    using offset_eq [OF o1] by (simp add: sz)
  finally show ?thesis .
qed

section \<open>When the loop returns\<close>

text \<open>The blocks with the pointer above them, and the images, are mapped.\<close>

definition tls_ready :: "addr \<Rightarrow> u64 \<Rightarrow> memory \<Rightarrow> ELFBinary list \<Rightarrow> bool" where
  "tls_ready T off m bs \<longleftrightarrow>
     (\<forall>x. in_range (unat T + unat off - tls_sum bs) (tls_sum bs + 8) x \<longrightarrow> m x \<noteq> None) \<and>
     (\<forall>b \<in> set bs. \<forall>ph. file_tls b = Some ph \<longrightarrow>
        mapped m (base_addr b + p_vaddr ph) (unat (p_memsz ph)))"

lemma mapped_range:
  assumes "\<And>x. in_range lo k x \<Longrightarrow> m x \<noteq> None" and "lo \<le> unat a" and "unat a + n \<le> lo + k"
    and "unat a + n \<le> 2 ^ 64"
  shows "mapped m a n"
  unfolding mapped_def
proof (intro allI impI)
  fix i
  assume i: "i < n"
  then have "unat (of_nat i :: u64) = i" using assms(4) by (intro unat_of_nat_u64) simp
  moreover from this have "unat (a + of_nat i) = unat a + i"
    using i assms(4) by (subst unat_add_u64) simp_all
  ultimately show "m (a + of_nat i) \<noteq> None" using assms(1-3) i by simp
qed

lemma init_tls_one_mapped:
  "init_tls_one T (m, off) b = Inr (m', off') \<Longrightarrow> m' x = None \<longleftrightarrow> m x = None"
  by (auto simp: init_tls_one_def res_simps memcpy_mapped memset_mapped write_u64_mapped
      split: if_splits option.splits)

interpretation tls_map_loop: checked_loop "init_tls_one T"
  "\<lambda>st. fst st x = None \<longleftrightarrow> unmapped" for T x unmapped
proof (unfold_locales, goal_cases)
  case (1 st b st')
  then show ?case using init_tls_one_mapped [of T "fst st" "snd st" b "fst st'" "snd st'"] by simp
qed

lemma init_tls_one_total:
  assumes "has_tls b" and "file_tls b = Some ph" and "p_filesz ph \<le> p_memsz ph"
    and "unat (p_memsz ph) \<le> unat off" and "unat T + unat off + 8 \<le> 2 ^ 64"
    and "\<And>x. in_range (unat T + unat off - unat (p_memsz ph)) (unat (p_memsz ph) + 8) x \<Longrightarrow> m x \<noteq> None"
    and "mapped m (base_addr b + p_vaddr ph) (unat (p_memsz ph))"
  shows "\<exists>m'. init_tls_one T (m, off) b = Inr (m', off - p_memsz ph)"
proof -
  let ?n = "p_memsz ph" and ?z = "p_memsz ph - p_filesz ph"
  let ?lo = "unat T + unat off - unat (p_memsz ph)" and ?k = "unat (p_memsz ph) + 8"
  have z: "unat ?z \<le> unat ?n" using unat_sub [OF assms(3)] by simp
  have a: "unat (T + off - ?n) = ?lo" "unat (T + off - ?z) = unat T + unat off - unat ?z"
    "unat (T + off) = unat T + unat off"
    using assms(4,5) z by (auto intro!: unat_block unat_add_u64)
  have "mapped m (T + off - ?n) (unat ?n)"
    using a assms(4,5) by (intro mapped_range [where lo = ?lo and k = ?k] assms(6)) simp_all
  from memcpy_ok [OF this assms(7)] obtain m1 where
    c: "memcpy m (T + off - ?n) (base_addr b + p_vaddr ph) ?n = Inr m1" by blast
  have m1: "m1 x \<noteq> None" if "in_range ?lo ?k x" for x
    using assms(6) [OF that] by (simp add: memcpy_mapped [OF c])
  have "mapped m1 (T + off - ?z) (unat ?z)"
    using a assms(4,5) z by (intro mapped_range [where lo = ?lo and k = ?k] m1) simp_all
  from memset_ok [OF this] obtain m2 where s: "memset m1 (T + off - ?z) 0 ?z = Inr m2" by blast
  have m2: "m2 x \<noteq> None" if "in_range ?lo ?k x" for x
    using m1 [OF that] by (simp add: memset_mapped [OF s])
  have "mapped m2 (T + off) 8"
    using a assms(4,5) by (intro mapped_range [where lo = ?lo and k = ?k] m2) simp_all
  from write_u64_ok [OF this] obtain m3 where "write_u64 m2 (T + off) (T + off) = Inr m3" by blast
  with c s assms(1,2) show ?thesis by (simp add: init_tls_one_def)
qed

lemma tls_loop_total:
  "list_all tls_sane bs \<Longrightarrow> tls_sum bs \<le> unat off \<Longrightarrow> unat T + unat off + 8 \<le> 2 ^ 64 \<Longrightarrow>
    tls_ready T off m bs \<Longrightarrow> \<exists>st. foldR (init_tls_one T) (m, off) bs = Inr st"
proof (induction bs arbitrary: m off)
  case Nil
  then show ?case by simp
next
  case (Cons b bs)
  show ?case
  proof (cases "has_tls b")
    case False
    with Cons.prems have "tls_ready T off m bs" by (simp add: tls_ready_def tls_memsz_def)
    with Cons False show ?thesis by (simp add: init_tls_one_none tls_memsz_def)
  next
    case True
    with Cons.prems(1) obtain ph where ph: "file_tls b = Some ph" "p_filesz ph \<le> p_memsz ph"
      by (auto simp: tls_sane_def split: option.splits)
    with True have sz: "tls_memsz b = unat (p_memsz ph)" by (simp add: tls_memsz_def)
    with Cons.prems(2) have le: "unat (p_memsz ph) \<le> unat off" by simp
    have "m x \<noteq> None"
      if "in_range (unat T + unat off - unat (p_memsz ph)) (unat (p_memsz ph) + 8) x" for x
      using that Cons.prems(2,4) sz by (auto simp: tls_ready_def)
    moreover have "mapped m (base_addr b + p_vaddr ph) (unat (p_memsz ph))"
      using Cons.prems(4) ph(1) by (simp add: tls_ready_def)
    ultimately obtain m1 where one: "init_tls_one T (m, off) b = Inr (m1, off - p_memsz ph)"
      using init_tls_one_total [OF True ph le Cons.prems(3)] by blast
    have o1: "unat (off - p_memsz ph) = unat off - unat (p_memsz ph)"
      using le by (intro unat_sub) (simp add: word_le_nat_alt)
    have "tls_ready T (off - p_memsz ph) m1 bs"
      using Cons.prems(2,4) le sz o1 init_tls_one_mapped [OF one] mapped_cong
      by (auto simp: tls_ready_def mapped_def)
    with Cons.IH [of "off - p_memsz ph" m1] Cons.prems le sz o1 one show ?thesis by simp
  qed
qed

lemma tls_size_sum:
  "list_all tls_sane bs \<Longrightarrow> foldR add_tls_size n bs = Inr (n + of_nat (tls_sum bs))"
proof (induction bs arbitrary: n)
  case Nil
  then show ?case by simp
next
  case (Cons b bs)
  then have "add_tls_size n b = Inr (n + of_nat (tls_memsz b))"
    by (auto simp: add_tls_size_def tls_memsz_def tls_sane_def split: option.splits)
  with Cons show ?case by (simp add: add.assoc)
qed

lemma tls_loop_Segv:
  "list_all tls_sane bs \<Longrightarrow> foldR (init_tls_one T) st bs = Inl e \<Longrightarrow> e = Segv"
proof (induction bs arbitrary: st)
  case Nil
  then show ?case by simp
next
  case (Cons b bs)
  have "e = Segv" if "init_tls_one T st b = Inl e"
    using that Cons.prems(1)
    by (auto simp: init_tls_one_def tls_sane_def res_simps dest: memcpy_Segv memset_Segv write_u64_Segv
        split: prod.splits option.splits if_splits)
  with Cons show ?case by (auto simp: res_simps)
qed

section \<open>Properties\<close>

text \<open>
  C9: what a thread finds in its storage. If the blocks fit into 4096 bytes below the thread
  pointer, they and the images of the segments are mapped and the images lie elsewhere, the
  copy loop returns, and then byte \<open>i\<close> of the block of a file is byte \<open>i\<close> of its
  \<open>.tdata\<close> image, or zero in its \<open>.tbss\<close>, for all bytes of the last file with
  thread-local storage and from byte 8 on for the others. Memory outside the blocks and the
  eight bytes above them is untouched.
\<close>

theorem tls_block_contents:
  assumes "list_all tls_sane bs" and "tls_sum bs \<le> 4096" and "unat T + 4104 \<le> 2 ^ 64"
    and "tls_ready T sloader_tls_offset m bs" and "list_all (tls_source_apart T) bs"
  shows "\<exists>m' off'. init_tls T bs (m, sloader_tls_offset) = Inr (m', off') \<and>
    unat off' + tls_sum bs = 4096 \<and>
    (\<forall>pre b post ph i. bs = pre @ b # post \<longrightarrow> file_tls b = Some ph \<longrightarrow> i < unat (p_memsz ph) \<longrightarrow>
       8 \<le> i \<or> (\<forall>c \<in> set post. \<not> has_tls c) \<longrightarrow>
       m' (T + 4096 - of_nat (tls_sum (pre @ [b])) + of_nat i) =
         (if i < unat (p_filesz ph) then m (base_addr b + p_vaddr ph + of_nat i) else Some 0)) \<and>
    (\<forall>x. \<not> in_range (unat T + 4096 - tls_sum bs) (tls_sum bs + 8) x \<longrightarrow> m' x = m x)"
proof -
  have top: "tls_sum bs \<le> unat sloader_tls_offset" "unat T + unat sloader_tls_offset + 8 \<le> 2 ^ 64"
    "unat sloader_tls_offset = 4096"
    using assms(2,3) by (simp_all add: sloader_tls_offset_def)
  from tls_loop_total [OF assms(1) top(1,2) assms(4)] obtain m' off' where
    r: "foldR (init_tls_one T) (m, sloader_tls_offset) bs = Inr (m', off')" by auto
  have "(of_nat (tls_sum bs) :: u64) \<le> 4096"
    using assms(2) by (simp add: word_le_nat_alt unat_of_nat_u64)
  then have i: "init_tls T bs (m, sloader_tls_offset) = Inr (m', off')"
    using r by (simp add: init_tls_def tls_size_sum [OF assms(1)] CHECK_def)
  have "m' (T + 4096 - of_nat (tls_sum (pre @ [b])) + of_nat i) =
      (if i < unat (p_filesz ph) then m (base_addr b + p_vaddr ph + of_nat i) else Some 0)"
    if "bs = pre @ b # post" "file_tls b = Some ph" "i < unat (p_memsz ph)"
      "8 \<le> i \<or> (\<forall>c \<in> set post. \<not> has_tls c)" for pre b post ph i
  proof -
    have "has_tls b" "tls_source_apart T b"
      using assms(1,5) that(1,2) by (auto simp: tls_sane_def)
    with that assms(1-3) r show ?thesis by (intro tls_block_bytes) auto
  qed
  moreover note fr = tls_loop_frame [OF r assms(1) top(1,2)]
  from fr top(3) have o: "unat off' + tls_sum bs = 4096" by simp
  then have "unat T + 4096 - tls_sum bs = unat T + unat off'" by simp
  with fr have "\<forall>x. \<not> in_range (unat T + 4096 - tls_sum bs) (tls_sum bs + 8) x \<longrightarrow> m' x = m x" by simp
  ultimately show ?thesis using i o by blast
qed


lemma tls_search_spec:
  "tls_search m name off bs = Inr (Some o') \<Longrightarrow> list_all tls_sane bs \<Longrightarrow>
    \<exists>pre b post j. bs = pre @ b # post \<and> first_sym m name sym_tls b j \<and>
      (\<forall>c \<in> set pre. \<forall>j. \<not> sym_at m name sym_tls c j) \<and>
      o' = off - of_nat (tls_sum (pre @ [b])) + st_value (symtabs b ! j)"
proof (induction bs arbitrary: off)
  case Nil
  then show ?case by simp
next
  case (Cons b bs)
  from Cons.prems(1) obtain r where r: "search_syms m name sym_tls b 0 (symtabs b) = Inr r"
    by (auto simp: res_simps)
  show ?case
  proof (cases r)
    case (Some j)
    with Cons.prems r obtain ph where "file_tls b = Some ph" "has_tls b"
      "o' = off - p_memsz ph + st_value (symtabs b ! j)"
      by (auto simp: tls_sane_def split: option.splits)
    with search_syms_first [OF r [unfolded Some]] show ?thesis
      by (intro exI [of _ "[]"] exI [of _ b] exI [of _ bs] exI [of _ j]) (simp add: tls_memsz_def)
  next
    case None
    from Cons.prems(2) have s: "tls_sane b" "list_all tls_sane bs" by simp_all
    from Cons.prems(1) r None s(1) have
      "tls_search m name (off - of_nat (tls_memsz b)) bs = Inr (Some o')"
      by (auto simp: tls_sane_def tls_memsz_def split: option.splits if_splits)
    from Cons.IH [OF this s(2)] obtain pre c post j where p: "bs = pre @ c # post"
      "first_sym m name sym_tls c j" "\<forall>c \<in> set pre. \<forall>j. \<not> sym_at m name sym_tls c j"
      "o' = off - of_nat (tls_memsz b) - of_nat (tls_sum (pre @ [c])) + st_value (symtabs c ! j)"
      by blast
    with search_syms_no [OF r [unfolded None]] show ?thesis
      by (intro exI [of _ "b # pre"] exI [of _ c] exI [of _ post] exI [of _ j])
         (simp add: diff_diff_eq)
  qed
qed

text \<open>
  C22: initial-exec accesses reach the right block. The offset a \<open>TPOFF64\<close> relocation
  stores leads from the thread pointer to the symbol's place in the block that the copy loop
  fills for the defining file, where the defining file is the first in load order with a
  defined thread-local symbol of that name.
\<close>

theorem TLSSymOffset_reaches_block:
  assumes "TLSSymOffset lc m L name = Inr o'" and "list_all tls_sane (binaries L)"
    and "libc_tls_variables lc name = None"
  shows "\<exists>pre b post j. binaries L = pre @ b # post \<and> first_sym m name sym_tls b j \<and>
    (\<forall>c \<in> set pre. \<forall>j. \<not> sym_at m name sym_tls c j) \<and>
    (tls_block lc + 4096) + o' =
      (tls_block lc + 4096 - of_nat (tls_sum (pre @ [b]))) + st_value (symtabs b ! j)"
proof -
  from assms(1,3) have "tls_search m name 0 (binaries L) = Inr (Some o')"
    by (auto simp: TLSSymOffset_def res_simps split: option.splits)
  from tls_search_spec [OF this assms(2)] obtain pre b post j where
    "binaries L = pre @ b # post" "first_sym m name sym_tls b j"
    "\<forall>c \<in> set pre. \<forall>j. \<not> sym_at m name sym_tls c j"
    "o' = 0 - of_nat (tls_sum (pre @ [b])) + st_value (symtabs b ! j)" by blast
  then show ?thesis by (intro exI [of _ pre] exI [of _ b] exI [of _ post] exI [of _ j]) simp
qed

text \<open>
  The offset of libc's own thread-local variables has the wrong sign. For a variable of
  \<open>sloader_libc_tls_variables\<close> at address \<open>a\<close> no loaded file defines, the stored
  offset is the negative of \<open>a\<close>'s offset from the thread pointer, so an access through it
  misses \<open>a\<close> unless \<open>a\<close> is at the thread pointer or half the address space away.
\<close>

lemma libc_tls_offset_negated:
  assumes "tls_search m name 0 (binaries L) = Inr None" and "libc_tls_variables lc name = Some a"
  shows "TLSSymOffset lc m L name = Inr (- (a - (tls_block lc + 4096))) \<and>
    ((tls_block lc + 4096) + - (a - (tls_block lc + 4096)) = a \<longleftrightarrow>
      2 * (a - (tls_block lc + 4096)) = 0)"
proof -
  have "t + - (a - t) = a \<longleftrightarrow> 2 * (a - t) = 0" for t :: addr
    by (simp add: algebra_simps) (metis add.commute diff_add_cancel eq_diff_eq mult_2)
  note this [of "tls_block lc + 4096"]
  moreover have "TLSSymOffset lc m L name = Inr (- (a - (tls_block lc + 4096)))"
    using assms by (simp add: TLSSymOffset_def)
  ultimately show ?thesis by (simp only:)
qed

text \<open>
  C23: dynamic accesses reach the last block only. \<open>sloader_tls_get_addr\<close> ignores the module
  and adds \<open>ti_offset\<close> to the place where the copy loop stopped, which is the start of the
  block of the last file with thread-local storage. For a variable at offset \<open>ti_offset\<close> of
  the block of \<open>b\<close> the answer is right exactly when no later file has such storage.
\<close>

theorem tls_get_addr_last_block:
  assumes "list_all tls_sane bs" and "tls_sum bs \<le> 4096" and "unat T + 4104 \<le> 2 ^ 64"
    and "init_tls T bs (m, sloader_tls_offset) = Inr (m', off')"
    and "bs = pre @ b # post" and "read_u64 m2 (ti + 8) = Inr ti_offset"
  shows "\<exists>a. sloader_tls_get_addr T (m2, off') ti = Inr a \<and>
    (a = (T + 4096 - of_nat (tls_sum (pre @ [b]))) + ti_offset \<longleftrightarrow> tls_sum post = 0)"
proof -
  have top: "tls_sum bs \<le> unat sloader_tls_offset" "unat T + unat sloader_tls_offset + 8 \<le> 2 ^ 64"
    using assms(2,3) by (simp_all add: sloader_tls_offset_def)
  from assms(4) have "foldR (init_tls_one T) (m, sloader_tls_offset) bs = Inr (m', off')"
    by (auto simp: init_tls_def res_simps)
  from tls_loop_frame [OF this assms(1) top] have "unat off' + tls_sum bs = 4096"
    by (simp add: sloader_tls_offset_def)
  then have off: "off' = 4096 - of_nat (tls_sum bs)" by (rule offset_eq)
  have u: "unat (of_nat k :: u64) = k" if "k \<le> 4096" for k
    using that by (intro unat_of_nat_u64) simp
  have inj: "(of_nat i :: u64) = of_nat j \<longleftrightarrow> i = j" if "i \<le> 4096" "j \<le> 4096" for i j
    using u that by metis
  have eq: "T + (4096 - c) + z = (T + 4096 - d) + z \<longleftrightarrow> c = d" for c d z :: u64
    by (simp add: add_diff_eq)
  have "T + off' + ti_offset = (T + 4096 - of_nat (tls_sum (pre @ [b]))) + ti_offset \<longleftrightarrow>
      (of_nat (tls_sum bs) :: u64) = of_nat (tls_sum (pre @ [b]))"
    unfolding off by (rule eq)
  also have "\<dots> \<longleftrightarrow> tls_sum bs = tls_sum (pre @ [b])"
    using assms(2,5) by (intro inj) simp_all
  also have "\<dots> \<longleftrightarrow> tls_sum post = 0" using assms(5) by simp
  finally show ?thesis using assms(6) by (simp add: sloader_tls_get_addr_def)
qed

text \<open>
  The second file with thread-local storage destroys the first eight bytes of the block
  of the one before it: the copy loop stores a pointer at the top of every block, and the top
  of a block is the start of the previous one.
\<close>

lemma tls_start_overwritten:
  assumes "foldR (init_tls_one T) (m, sloader_tls_offset) (pre @ [b, c]) = Inr (m', off')"
    and "list_all tls_sane (pre @ [b, c])" and "tls_sum (pre @ [b, c]) \<le> 4096"
    and "unat T + 4104 \<le> 2 ^ 64" and "has_tls c"
  shows "read_u64 m' (T + 4096 - of_nat (tls_sum (pre @ [b]))) =
    Inr (T + 4096 - of_nat (tls_sum (pre @ [b])))"
proof -
  from assms(1) obtain m1 off1 where 1: "foldR (init_tls_one T) (m, 4096) (pre @ [b]) = Inr (m1, off1)"
    and 2: "init_tls_one T (m1, off1) c = Inr (m', off')"
    by (auto simp: res_simps sloader_tls_offset_def)
  from assms(2,5) obtain ph where ph: "file_tls c = Some ph"
    by (auto simp: tls_sane_def split: option.splits)
  with 2 assms(5) obtain m2 where "write_u64 m2 (T + off1) (T + off1) = Inr m'"
    by (auto simp: init_tls_one_def res_simps)
  then have r: "read_u64 m' (T + off1) = Inr (T + off1)" by (rule read_write_u64)
  have "unat off1 + tls_sum (pre @ [b]) = 4096"
    using tls_loop_frame [OF 1] assms(2-4) by simp
  then have "off1 = 4096 - of_nat (tls_sum (pre @ [b]))" by (rule offset_eq)
  with r show ?thesis by (simp only: add_diff_eq)
qed

section \<open>The properties on a sample\<close>

text \<open>
  Two files with thread-local storage of 16 bytes, 8 of them initialised, and a symbol
  \<open>f\<close> in each; the block is at \<open>0x10000\<close>.
\<close>

definition tls_mem :: memory where
  "tls_mem = map_at (map_at f_memory 0x10000 0x1010 (\<lambda>_. 0)) 0x20000 16 (\<lambda>i. of_nat i + 1)"

definition tls_hdr :: Elf64_Phdr where
  "tls_hdr = \<lparr>p_type = PT_TLS, p_flags = 4, p_offset = 0, p_vaddr = 0, p_filesz = 8, p_memsz = 16\<rparr>"

definition tls_bin :: "path \<Rightarrow> ELFBinary" where
  "tls_bin p = (f_bin p 0x20000 1)\<lparr>has_tls := True, file_tls := Some tls_hdr,
     symtabs := [(f_sym 1)\<lparr>st_info := STT_TLS, st_value := 8\<rparr>]\<rparr>"

definition tls_loader :: DynLoader where
  "tls_loader = f_loader\<lparr>binaries := [tls_bin ''/a'', tls_bin ''/b'']\<rparr>"

definition tls_libc :: libc where
  "tls_libc = \<lparr>libc_map = (\<lambda>_. None), libc_tls_variables = [''errno'' \<mapsto> 0xff80], tls_block = 0x10000\<rparr>"

lemma tls_bin_sel [simp]:
  "has_tls (tls_bin p)" "file_tls (tls_bin p) = Some tls_hdr" "base_addr (tls_bin p) = 0x20000"
  "symtabs (tls_bin p) = [(f_sym 1)\<lparr>st_info := STT_TLS, st_value := 8\<rparr>]"
  "strtab (tls_bin p) = 0x1000" "tls_memsz (tls_bin p) = 16" "tls_sane (tls_bin p)"
  by (simp_all add: tls_bin_def f_bin_def tls_memsz_def tls_sane_def tls_hdr_def)

lemma tls_loader_sel [simp]: "binaries tls_loader = [tls_bin ''/a'', tls_bin ''/b'']"
  by (simp add: tls_loader_def)

lemma tls_sample_run:
  "\<exists>m' off'. foldR (init_tls_one 0x10000) (tls_mem, sloader_tls_offset)
     ([] @ [tls_bin ''/a'', tls_bin ''/b'']) = Inr (m', off')"
  by (simp add: init_tls_one_def tls_hdr_def sloader_tls_offset_def tls_mem_def f_memory_def
      eval_simps)

lemma tls_sample_apart: "tls_source_apart 0x10000 (tls_bin p)"
proof -
  have "unat (0x20000 + of_nat j :: u64) = 0x20000 + j" if "j < 16" for j
  proof -
    have "unat (of_nat j :: u64) = j" using that by (intro unat_of_nat_u64) simp
    then show ?thesis using that by (subst unat_add_u64) simp_all
  qed
  then show ?thesis by (simp add: tls_source_apart_def tls_hdr_def)
qed

lemma tls_sample_ready:
  "tls_ready 0x10000 sloader_tls_offset tls_mem [tls_bin ''/a'', tls_bin ''/b'']"
proof -
  have "tls_mem x \<noteq> None" if "in_range (0x10000 + 4096 - 32) 40 x" for x
  proof -
    have "unat (x - 0x10000) < 0x1010" using that unat_offset_range [of "0x10000" "0x1010" x] by simp
    then show ?thesis by (simp add: tls_mem_def map_at_def)
  qed
  moreover have "mapped tls_mem 0x20000 16"
    by (simp add: mapped_def tls_mem_def map_at_def unat_of_nat_u64)
  ultimately show ?thesis by (simp add: tls_ready_def sloader_tls_offset_def tls_hdr_def)
qed

theorem tls_block_contents_witness:
  "\<exists>m' off'. init_tls 0x10000 [tls_bin ''/a'', tls_bin ''/b''] (tls_mem, sloader_tls_offset)
       = Inr (m', off') \<and> m' 0x10fe1 = Some 2 \<and> m' 0x10fe9 = Some 0"
proof -
  let ?bs = "[tls_bin ''/a'', tls_bin ''/b'']"
  have s: "list_all tls_sane ?bs" "tls_sum ?bs \<le> 4096" "unat (0x10000 :: u64) + 4104 \<le> 2 ^ 64"
    "list_all (tls_source_apart 0x10000) ?bs"
    using tls_sample_apart by simp_all
  from tls_block_contents [OF s(1-3) tls_sample_ready s(4)] obtain m' off' where
    r: "init_tls 0x10000 ?bs (tls_mem, sloader_tls_offset) = Inr (m', off')"
    and c: "\<And>pre b post ph i. ?bs = pre @ b # post \<Longrightarrow> file_tls b = Some ph \<Longrightarrow> i < unat (p_memsz ph) \<Longrightarrow>
       8 \<le> i \<or> (\<forall>c \<in> set post. \<not> has_tls c) \<Longrightarrow>
       m' (0x10000 + 4096 - of_nat (tls_sum (pre @ [b])) + of_nat i) =
         (if i < unat (p_filesz ph) then tls_mem (base_addr b + p_vaddr ph + of_nat i) else Some 0)"
    by blast
  from c [of "[tls_bin ''/a'']" "tls_bin ''/b''" "[]" tls_hdr 1] have "m' 0x10fe1 = Some 2"
    by (simp add: tls_hdr_def tls_mem_def map_at_def)
  moreover from c [of "[tls_bin ''/a'']" "tls_bin ''/b''" "[]" tls_hdr 9] have "m' 0x10fe9 = Some 0"
    by (simp add: tls_hdr_def)
  ultimately show ?thesis using r by blast
qed


lemma tls_sample_name: "sym_name tls_mem (tls_bin p) ((f_sym 1)\<lparr>st_info := STT_TLS, st_value := 8\<rparr>) = Inr ''f''"
proof -
  have "char_of (102 :: nat) = CHR ''f''" by code_simp
  then show ?thesis
    by (simp add: sym_name_def f_sym_def read_cstr.simps f_memory_def tls_mem_def map_at_def)
qed

lemma tls_sample_sym: "sym_tls ((f_sym 1)\<lparr>st_info := STT_TLS, st_value := 8\<rparr>)"
  by (simp add: sym_tls_def f_sym_def ELF64_ST_TYPE_def)

theorem TLSSymOffset_reaches_block_witness:
  "\<exists>o' pre b post j. TLSSymOffset tls_libc tls_mem tls_loader ''f'' = Inr o' \<and>
     list_all tls_sane (binaries tls_loader) \<and> binaries tls_loader = pre @ b # post \<and>
     (tls_block tls_libc + 4096) + o' =
       (tls_block tls_libc + 4096 - of_nat (tls_sum (pre @ [b]))) + st_value (symtabs b ! j)"
proof -
  have t: "TLSSymOffset tls_libc tls_mem tls_loader ''f'' = Inr (0 - 16 + 8)"
    using tls_sample_name tls_sample_sym by (simp add: TLSSymOffset_def tls_hdr_def)
  have s: "list_all tls_sane (binaries tls_loader)" by simp
  have "libc_tls_variables tls_libc ''f'' = None" by (simp add: tls_libc_def)
  from TLSSymOffset_reaches_block [OF t s this] t s show ?thesis by blast
qed

theorem tls_get_addr_last_block_witness:
  "\<exists>m' off' a. init_tls 0x10000 [tls_bin ''/a'', tls_bin ''/b''] (tls_mem, sloader_tls_offset) = Inr (m', off') \<and>
     sloader_tls_get_addr 0x10000 (tls_mem, off') 0x20000 = Inr a \<and>
     a \<noteq> 0x10000 + 4096 - 16 + 0x100f0e0d0c0b0a09"
proof -
  let ?bs = "[tls_bin ''/a'', tls_bin ''/b'']"
  have s: "list_all tls_sane ?bs" "tls_sum ?bs \<le> 4096" "unat (0x10000 :: u64) + 4104 \<le> 2 ^ 64" by simp_all
  have b: "?bs = [] @ tls_bin ''/a'' # [tls_bin ''/b'']" by simp
  have r: "read_u64 tls_mem (0x20000 + 8) = Inr 0x100f0e0d0c0b0a09"
    by (simp add: tls_mem_def eval_simps)
  obtain m' off' where i: "init_tls 0x10000 ?bs (tls_mem, sloader_tls_offset) = Inr (m', off')"
    using tls_sample_run unfolding init_tls_def tls_size_sum [OF s(1)]
    by (auto simp: CHECK_def simp del: foldR.simps)
  from tls_get_addr_last_block [OF s i b r] i show ?thesis by auto
qed

end
