(* ===== verification/Start_Stack.thy ===== *)
theory Start_Stack
  imports Sample_Host
begin

text \<open>
  The initial stack of a program: the auxiliary vector \<open>Execute\<close> passes on, the array it
  lays out, and \<open>ExecuteCore\<close>, which pushes that array and jumps. \<open>DynLoader\<close> and
  \<open>ExecLoader\<close> have the same code up to the order of the environment and the
  arguments, so both use the definitions of this theory. What the program's entry code reads
  back from the stack is \<open>parse_words\<close>.
\<close>

section \<open>The auxiliary vector\<close>

text \<open>
  The constants \<open>AT_IGNORE\<close>, \<open>AT_PHENT\<close>, \<open>AT_PAGESZ\<close>, \<open>AT_FLAGS\<close>,
  \<open>AT_NOTELF\<close>, \<open>AT_UID\<close>, \<open>AT_EUID\<close>, \<open>AT_GID\<close>, \<open>AT_EGID\<close>,
  \<open>AT_CLKTCK\<close>, \<open>AT_PLATFORM\<close>, \<open>AT_HWCAP\<close>, \<open>AT_FPUCW\<close>, the three cache block
  sizes, \<open>AT_IGNOREPPC\<close>, \<open>AT_SECURE\<close>, \<open>AT_BASE_PLATFORM\<close>, \<open>AT_RANDOM\<close>,
  \<open>AT_HWCAP2\<close>, \<open>AT_SYSINFO\<close>, \<open>AT_SYSINFO_EHDR\<close>, the cache shapes, sizes and
  geometries and \<open>AT_MINSIGSTKSZ\<close>, in the order of the source.
\<close>

abbreviation AT_RANDOM :: u64 where "AT_RANDOM \<equiv> 25"

definition aux_types :: "u64 list" where
  "aux_types = [1, 4, 6, 8, 10, 11, 12, 13, 14, 17, 15, 16, 18, 19, 20, 21, 22, 23, 24,
     AT_RANDOM, 26, 32, 33, 34, 35, 36, 37, 40, 41, 42, 43, 44, 45, 46, 47, 51]"

definition aux_tvs :: "os \<Rightarrow> (u64 \<times> u64) list" where
  "aux_tvs os = filter (\<lambda>(t, v). v \<noteq> 0) (map (\<lambda>t. (t, os_getauxval os t)) aux_types)"

section \<open>The array\<close>

text \<open>The array under construction and \<open>stack_index\<close>.\<close>

type_synonym frame = "u64 list \<times> nat"

definition put :: "u64 \<Rightarrow> frame \<Rightarrow> frame" where
  "put v st = ((fst st)[snd st := v], Suc (snd st))"

definition skip :: "nat \<Rightarrow> frame \<Rightarrow> frame" where
  "skip k st = (fst st, snd st + k)"

definition put_aux :: "u64 \<times> u64 \<Rightarrow> frame \<Rightarrow> frame" where
  "put_aux tv st = put (fst tv) (put (snd tv) st)"

text \<open>
  \<open>Execute\<close> of \<open>DynLoader\<close>: \<open>envp\<close> and \<open>argp\<close> are the addresses of the
  characters of the environment strings and of the arguments.
\<close>

definition build_stack :: "(u64 \<times> u64) list \<Rightarrow> u64 list \<Rightarrow> u64 list \<Rightarrow> frame" where
  "build_stack auxs envp argp =
     (let stack_num = 4 + 2 + 2 * length auxs + 1 + length envp + 2 + length argp;
          st = (replicate stack_num 0, 0);
          st = skip 4 st;
          st = skip 2 st;
          st = fold put_aux auxs st;
          st = skip 1 st;
          st = fold (\<lambda>i. put (envp ! (length envp - 1 - i))) [0..<length envp] st;
          st = skip 1 st;
          st = fold (\<lambda>i. put (argp ! (length argp - 1 - i))) [0..<length argp] st
      in put (of_nat (length argp)) st)"

section \<open>ExecuteCore\<close>

text \<open>\<open>pushq\<close>: memory and \<open>%rsp\<close>.\<close>

definition pushq :: "memory \<times> addr \<Rightarrow> u64 \<Rightarrow> (memory \<times> addr) res" where
  "pushq st v = rbind (write_u64 (fst st) (snd st - 8) v) (\<lambda>m. Inr (m, snd st - 8))"

text \<open>All pushes, then the jump: memory, \<open>%rsp\<close> and \<open>%rip\<close> when the program starts.\<close>

definition ExecuteCore ::
  "u64 list \<Rightarrow> addr \<Rightarrow> memory \<times> addr \<Rightarrow> (memory \<times> addr \<times> addr) res" where
  "ExecuteCore stack entry st =
     rbind (foldR pushq st stack) (\<lambda>(m, rsp). Inr (m, rsp, entry))"

section \<open>What the array is\<close>

text \<open>A frame of \<open>N\<close> words that is filled up to its index, with zeros above.\<close>

definition filled :: "nat \<Rightarrow> u64 list \<Rightarrow> frame \<Rightarrow> bool" where
  "filled N ws st \<longleftrightarrow> length ws \<le> N \<and> st = (ws @ replicate (N - length ws) 0, length ws)"

lemma filled_put: "filled N ws st \<Longrightarrow> length ws < N \<Longrightarrow> filled N (ws @ [v]) (put v st)"
  by (auto simp: filled_def put_def Suc_diff_Suc [symmetric])

lemma filled_skip:
  "filled N ws st \<Longrightarrow> length ws + k \<le> N \<Longrightarrow> filled N (ws @ replicate k 0) (skip k st)"
  by (auto simp: filled_def skip_def replicate_add [symmetric])

lemma filled_puts:
  "filled N ws st \<Longrightarrow> length ws + length vs \<le> N \<Longrightarrow> filled N (ws @ vs) (fold put vs st)"
proof (induction vs arbitrary: ws st)
  case Nil
  then show ?case by simp
next
  case (Cons v vs)
  then have "filled N (ws @ [v]) (put v st)" by (intro filled_put) simp_all
  from Cons.IH [OF this] Cons.prems(2) show ?case by simp
qed

definition aux_words :: "(u64 \<times> u64) list \<Rightarrow> u64 list" where
  "aux_words auxs = concat (map (\<lambda>(t, v). [v, t]) auxs)"

lemma aux_words_length: "length (aux_words auxs) = 2 * length auxs"
  by (induction auxs) (auto simp: aux_words_def)

lemma fold_put_aux: "fold put_aux auxs st = fold put (aux_words auxs) st"
  by (induction auxs arbitrary: st) (auto simp: aux_words_def put_aux_def)

lemma fold_put_rev:
  "fold (\<lambda>i. put (xs ! (length xs - 1 - i))) [0..<length xs] st = fold put (rev xs) st"
proof -
  have "map (\<lambda>i. xs ! (length xs - 1 - i)) [0..<length xs] = rev xs"
    by (rule nth_equalityI) (auto simp: rev_nth)
  then have "fold put (rev xs) st = fold put (map (\<lambda>i. xs ! (length xs - 1 - i)) [0..<length xs]) st"
    by simp
  then show ?thesis by (simp add: fold_map comp_def)
qed

definition stack_words :: "(u64 \<times> u64) list \<Rightarrow> u64 list \<Rightarrow> u64 list \<Rightarrow> u64 list" where
  "stack_words auxs envp argp =
     replicate 6 0 @ aux_words auxs @ [0] @ rev envp @ [0] @ rev argp @ [of_nat (length argp)]"

lemma build_stack_words:
  "build_stack auxs envp argp =
     (stack_words auxs envp argp, 4 + 2 + 2 * length auxs + 1 + length envp + 2 + length argp)"
proof -
  define N where "N = 4 + 2 + 2 * length auxs + 1 + length envp + 2 + length argp"
  note len = aux_words_length N_def
  have "filled N [] (replicate N 0, 0)" by (simp add: filled_def)
  from filled_skip [OF this, of 4]
  have "filled N (replicate 4 0) (skip 4 (replicate N 0, 0))" by (simp add: N_def)
  from filled_skip [OF this, of 2]
  have "filled N (replicate 6 0) (skip 2 (skip 4 (replicate N 0, 0)))"
    by (simp add: N_def replicate_add [symmetric])
  from filled_skip [OF filled_puts [OF this, of "aux_words auxs"], of 1]
  have "filled N ((replicate 6 0 @ aux_words auxs) @ [0])
      (skip 1 (fold put (aux_words auxs) (skip 2 (skip 4 (replicate N 0, 0)))))"
    by (simp add: len)
  from filled_skip [OF filled_puts [OF this, of "rev envp"], of 1]
  have "filled N ((((replicate 6 0 @ aux_words auxs) @ [0]) @ rev envp) @ [0])
      (skip 1 (fold put (rev envp)
        (skip 1 (fold put (aux_words auxs) (skip 2 (skip 4 (replicate N 0, 0)))))))"
    by (simp add: len)
  from filled_put [OF filled_puts [OF this, of "rev argp"], of "of_nat (length argp)"]
  have "filled N (stack_words auxs envp argp) (build_stack auxs envp argp)"
    unfolding build_stack_def Let_def fold_put_aux fold_put_rev N_def [symmetric]
    by (simp add: len stack_words_def)
  then show ?thesis by (simp add: filled_def stack_words_def len)
qed

section \<open>What is on the stack\<close>

lemma pushq_parts:
  "pushq (m, rsp) v = Inr st \<Longrightarrow> write_u64 m (rsp - 8) v = Inr (fst st) \<and> snd st = rsp - 8"
  by (auto simp: pushq_def res_simps)

lemma pushes_frame:
  "foldR pushq (m, rsp) ws = Inr (m', rsp') \<Longrightarrow> 8 * length ws \<le> 2 ^ 64 \<Longrightarrow>
    rsp' = rsp - of_nat (8 * length ws) \<and>
    (\<forall>x. 8 * length ws \<le> unat (x - rsp') \<longrightarrow> m' x = m x)"
proof (induction ws arbitrary: m rsp)
  case Nil
  then show ?case by simp
next
  case (Cons v ws)
  then obtain m1 where w: "write_u64 m (rsp - 8) v = Inr m1"
    and rest: "foldR pushq (m1, rsp - 8) ws = Inr (m', rsp')"
    by (auto simp: res_simps dest!: pushq_parts)
  from Cons.prems(2) have len: "8 * length ws \<le> 2 ^ 64" "8 * length ws < 2 ^ 64" by auto
  note IH = Cons.IH [OF rest len(1)]
  have r: "rsp' = rsp - of_nat (8 * length (v # ws))" using IH by (simp add: algebra_simps)
  have "m' x = m x" if x: "8 * length (v # ws) \<le> unat (x - rsp')" for x
  proof -
    let ?d = "x - rsp'" and ?n = "of_nat (8 * length ws) :: u64"
    have un: "unat ?n = 8 * length ws" using len(2) by (rule unat_of_nat_u64)
    with x have le: "?n \<le> ?d" by (simp add: word_le_nat_alt)
    have "x - (rsp - 8) = ?d - ?n" using IH by simp
    moreover have "unat (?d - ?n) = unat ?d - 8 * length ws" by (simp only: unat_sub [OF le] un)
    moreover have "8 \<le> unat ?d - 8 * length ws" using x by simp
    ultimately have "8 \<le> unat (x - (rsp - 8))" by (simp only:)
    from write_u64_frame [OF w this] have "m1 x = m x" .
    moreover have "m' x = m1 x" using IH x by simp
    ultimately show ?thesis by simp
  qed
  with r show ?case by blast
qed

lemma pushes_read:
  "foldR pushq (m, rsp) ws = Inr (m', rsp') \<Longrightarrow> 8 * length ws \<le> 2 ^ 64 \<Longrightarrow> k < length ws \<Longrightarrow>
    read_u64 m' (rsp' + of_nat (8 * k)) = Inr (rev ws ! k)"
proof (induction ws arbitrary: m rsp)
  case Nil
  then show ?case by simp
next
  case (Cons v ws)
  then obtain m1 where w: "write_u64 m (rsp - 8) v = Inr m1"
    and rest: "foldR pushq (m1, rsp - 8) ws = Inr (m', rsp')"
    by (auto simp: res_simps dest!: pushq_parts)
  from Cons.prems(2) have len: "8 * length ws \<le> 2 ^ 64" by simp
  show ?case
  proof (cases "k < length ws")
    case True
    with Cons.IH [OF rest len] show ?thesis by (simp add: nth_append)
  next
    case False
    with Cons.prems(3) have k: "k = length ws" by simp
    note fr = pushes_frame [OF rest len]
    have a: "rsp' + of_nat (8 * k) = rsp - 8" using fr k by simp
    have "m' (rsp - 8 + of_nat i) = m1 (rsp - 8 + of_nat i)" if "i < 8" for i
    proof -
      have "rsp - 8 + of_nat i - rsp' = of_nat (8 * length ws + i)" using fr by simp
      moreover have "unat (of_nat (8 * length ws + i) :: u64) = 8 * length ws + i"
        using that Cons.prems(2) by (intro unat_of_nat_u64) simp
      ultimately have "8 * length ws \<le> unat (rsp - 8 + of_nat i - rsp')" by (simp only:)
      with fr show ?thesis by blast
    qed
    then have "read_u64 m' (rsp - 8) = read_u64 m1 (rsp - 8)" by (rule read_u64_cong)
    with read_write_u64 [OF w] a k show ?thesis by (simp add: nth_append)
  qed
qed

lemma pushes_total:
  "(\<And>i. i < 8 * length ws \<Longrightarrow> m (rsp - 1 - of_nat i) \<noteq> None) \<Longrightarrow>
    \<exists>st. foldR pushq (m, rsp) ws = Inr st"
proof (induction ws arbitrary: m rsp)
  case Nil
  then show ?case by simp
next
  case (Cons v ws)
  have "m (rsp - 8 + of_nat i) \<noteq> None" if "i < 8" for i
  proof -
    have "of_nat (7 - i) = (7 :: u64) - of_nat i" using that by (simp add: of_nat_diff)
    then have "rsp - 1 - of_nat (7 - i) = rsp - 8 + of_nat i" by simp
    with Cons.prems [of "7 - i"] show ?thesis by simp
  qed
  then obtain m1 where w: "write_u64 m (rsp - 8) v = Inr m1"
    using write_u64_ok unfolding mapped_def by blast
  have "m1 (rsp - 8 - 1 - of_nat i) \<noteq> None" if "i < 8 * length ws" for i
    using Cons.prems [of "8 + i"] that
    by (simp add: write_u64_mapped [OF w] diff_diff_eq add.commute add.left_commute)
  then have "\<exists>st. foldR pushq (m1, rsp - 8) ws = Inr st" by (rule Cons.IH)
  moreover have "pushq (m, rsp) v = Inr (m1, rsp - 8)" using w by (simp add: pushq_def)
  ultimately show ?case by simp
qed

interpretation push_loop: checked_loop pushq "\<lambda>st. fst st x = None \<longleftrightarrow> unmapped" for x unmapped
  by unfold_locales (auto simp: pushq_def res_simps write_u64_mapped)

definition read_words :: "memory \<Rightarrow> addr \<Rightarrow> nat \<Rightarrow> u64 list res" where
  "read_words m a n = mapR (\<lambda>k. read_u64 m (a + of_nat (8 * k))) [0..<n]"

lemma pushes_words:
  assumes "foldR pushq (m, rsp) ws = Inr (m', rsp')" and "8 * length ws \<le> 2 ^ 64"
  shows "read_words m' rsp' (length ws) = Inr (rev ws)"
proof -
  have "read_words m' rsp' (length ws) = Inr (map (\<lambda>k. rev ws ! k) [0..<length ws])"
    unfolding read_words_def using pushes_read [OF assms] by (intro mapR_Inr) simp
  also have "map (\<lambda>k. rev ws ! k) [0..<length ws] = rev ws"
    using map_nth [of "rev ws"] by simp
  finally show ?thesis .
qed

text \<open>With a mapped stack \<open>ExecuteCore\<close> reaches the jump and leaves the array, last word first.\<close>

lemma ExecuteCore_pushes:
  assumes "\<forall>i < 8 * length stack. m (rsp - 1 - of_nat i) \<noteq> None" and "8 * length stack \<le> 2 ^ 64"
  shows "\<exists>m' rsp'. ExecuteCore stack entry (m, rsp) = Inr (m', rsp', entry) \<and>
    rsp' = rsp - of_nat (8 * length stack) \<and> read_words m' rsp' (length stack) = Inr (rev stack) \<and>
    (\<forall>x. 8 * length stack \<le> unat (x - rsp') \<longrightarrow> m' x = m x)"
proof -
  from pushes_total [of stack m rsp] assms(1)
  obtain m' rsp' where p: "foldR pushq (m, rsp) stack = Inr (m', rsp')" by auto
  then have "ExecuteCore stack entry (m, rsp) = Inr (m', rsp', entry)" by (simp add: ExecuteCore_def)
  with pushes_frame [OF p assms(2)] pushes_words [OF p assms(2)] show ?thesis by blast
qed

text \<open>One address per string, none of them null.\<close>

definition strings_placed :: "(string list \<Rightarrow> u64 list) \<Rightarrow> bool" where
  "strings_placed c_strs \<longleftrightarrow> (\<forall>ss. length (c_strs ss) = length ss \<and> 0 \<notin> set (c_strs ss))"

section \<open>Reading it back\<close>

text \<open>
  How the entry code of a program reads its stack (System V ABI, process initialisation):
  the argument count, that many arguments and a null, the environment up to a null, and the
  auxiliary vector up to type \<open>AT_NULL\<close>.
\<close>

fun read_auxv :: "u64 list \<Rightarrow> (u64 \<times> u64) list" where
  "read_auxv (t # v # ws) = (if t = 0 then [] else (t, v) # read_auxv ws)"
| "read_auxv ws = []"

definition parse_words :: "u64 list \<Rightarrow> u64 list \<times> u64 list \<times> (u64 \<times> u64) list" where
  "parse_words ws =
     (let n = unat (hd ws);
          env_on = drop (n + 2) ws;
          envp = takeWhile (\<lambda>w. w \<noteq> 0) env_on
      in (take n (tl ws), envp, read_auxv (drop (length envp + 1) env_on)))"

lemma rev_aux_words: "rev (aux_words auxs) = concat (map (\<lambda>(t, v). [t, v]) (rev auxs))"
  by (induction auxs) (auto simp: aux_words_def)

lemma read_auxv_words:
  "\<forall>(t, v) \<in> set auxs. t \<noteq> 0 \<Longrightarrow>
    read_auxv (concat (map (\<lambda>(t, v). [t, v]) auxs) @ 0 # 0 # ws) = auxs"
  by (induction auxs) auto

lemma parse_words_parts:
  assumes "0 \<notin> set envp" and "length argp < 2 ^ 64"
  shows "parse_words (of_nat (length argp) # argp @ 0 # envp @ 0 # ws) = (argp, envp, read_auxv ws)"
proof -
  have n: "unat (of_nat (length argp) :: u64) = length argp" using assms(2) by (rule unat_of_nat_u64)
  have d: "drop (length argp + 2) (of_nat (length argp) # argp @ 0 # envp @ 0 # ws) = envp @ 0 # ws"
    by simp
  have "w \<noteq> 0" if "w \<in> set envp" for w using assms(1) that by auto
  then have t: "takeWhile (\<lambda>w. w \<noteq> 0) (envp @ 0 # ws) = envp" by (simp add: takeWhile_append2)
  have "take (length argp) (argp @ 0 # envp @ 0 # ws) = argp"
    "drop (length envp + 1) (envp @ 0 # ws) = ws" by simp_all
  then show ?thesis by (simp only: parse_words_def Let_def list.sel n d t)
qed

lemma parse_stack_words:
  assumes "0 \<notin> set envp" and "\<forall>(t, v) \<in> set auxs. t \<noteq> 0" and "length argp < 2 ^ 64"
  shows "parse_words (rev (stack_words auxs envp argp)) = (argp, envp, rev auxs)"
proof -
  have "rev (stack_words auxs envp argp) = of_nat (length argp) # argp @ 0 # envp @ 0 #
      concat (map (\<lambda>(t, v). [t, v]) (rev auxs)) @ 0 # 0 # replicate 4 0"
    by (simp add: stack_words_def rev_aux_words numeral_eq_Suc)
  moreover have "read_auxv (concat (map (\<lambda>(t, v). [t, v]) (rev auxs)) @ 0 # 0 # replicate 4 0) = rev auxs"
    using assms(2) by (intro read_auxv_words) auto
  ultimately show ?thesis using parse_words_parts [OF assms(1,3)] by (simp only:)
qed

lemma aux_tvs_typed: "\<forall>(t, v) \<in> set (aux_tvs os). t \<noteq> 0"
proof -
  have "0 \<notin> set aux_types" by (simp add: aux_types_def)
  then show ?thesis unfolding aux_tvs_def by fastforce
qed

lemma aux_tvs_length: "length (aux_tvs os) \<le> 36"
proof -
  have "length (aux_tvs os) \<le> length aux_types" by (simp add: aux_tvs_def)
  then show ?thesis by (simp add: aux_types_def)
qed

section \<open>Property\<close>

text \<open>
  C7: the program finds its arguments, environment and auxiliary vector. The array is filled
  exactly (the final \<open>CHECK_EQ\<close> never fails); with enough mapped stack below
  \<open>%rsp\<close> all pushes succeed and the jump goes to the entry, the stack pointer ends below the
  pushed words, and reading from it as the ABI prescribes gives the arguments and the
  environment in their order and every auxiliary entry the kernel has a value for, followed by
  \<open>AT_NULL\<close>. No other memory changes.
\<close>

theorem start_stack_roundtrip:
  assumes "build_stack (aux_tvs os) envp argp = (stack, stack_index)"
    and "\<forall>i < 8 * length stack. m (rsp - 1 - of_nat i) \<noteq> None"
    and "0 \<notin> set envp" and "8 * length stack \<le> 2 ^ 64"
  shows "stack_index = length stack \<and>
    (\<exists>m' rsp' ws. ExecuteCore stack entry (m, rsp) = Inr (m', rsp', entry) \<and>
       rsp' = rsp - of_nat (8 * length stack) \<and> read_words m' rsp' (length stack) = Inr ws \<and>
       parse_words ws = (argp, envp, rev (aux_tvs os)) \<and>
       (\<forall>x. 8 * length stack \<le> unat (x - rsp') \<longrightarrow> m' x = m x))"
proof -
  from assms(1) have st: "stack = stack_words (aux_tvs os) envp argp"
    "stack_index = 4 + 2 + 2 * length (aux_tvs os) + 1 + length envp + 2 + length argp"
    by (simp_all add: build_stack_words)
  then have len: "stack_index = length stack"
    by (simp add: stack_words_def aux_words_length)
  have "length argp < 2 ^ 64" using assms(4) st len by simp
  then have "parse_words (rev stack) = (argp, envp, rev (aux_tvs os))"
    unfolding st by (intro parse_stack_words assms(3) aux_tvs_typed)
  with len ExecuteCore_pushes [OF assms(2,4), of entry] show ?thesis by metis
qed

text \<open>A page is stack enough for the samples.\<close>

lemma page_of_stack:
  assumes "i < 4096"
  shows "map_at m p 0x1000 f (p + 0x1000 - 1 - of_nat i) \<noteq> None"
proof -
  have "unat (of_nat i :: u64) = i" using assms by (intro unat_of_nat_u64) simp
  then have "of_nat i \<le> (0xfff :: u64)" using assms by (simp add: word_le_nat_alt)
  from unat_sub [OF this] have "unat (0xfff - of_nat i :: u64) < 4096" by simp
  moreover have "p + 0x1000 - 1 - of_nat i - p = 0xfff - of_nat i" by simp
  ultimately show ?thesis by (simp add: map_at_def)
qed

theorem start_stack_roundtrip_witness:
  "\<exists>stack stack_index m' rsp' ws. build_stack (aux_tvs (host_with [])) [0x5000] [0x6000, 0x6010] = (stack, stack_index) \<and>
     ExecuteCore stack 0x400 (map_at (\<lambda>_. None) 0x1000 0x1000 (\<lambda>_. 0), 0x2000) = Inr (m', rsp', 0x400) \<and>
     read_words m' rsp' (length stack) = Inr ws \<and>
     parse_words ws = ([0x6000, 0x6010], [0x5000], rev (aux_tvs (host_with [])))"
proof -
  let ?m = "map_at (\<lambda>_. None) 0x1000 0x1000 (\<lambda>_. 0)" and ?os = "host_with []"
  obtain stack stack_index where b: "build_stack (aux_tvs ?os) [0x5000] [0x6000, 0x6010] = (stack, stack_index)"
    by fastforce
  from b have len: "length stack \<le> 84"
    using aux_tvs_length [of ?os] by (auto simp: build_stack_words stack_words_def aux_words_length)
  have m: "\<forall>i < 8 * length stack. ?m (0x2000 - 1 - of_nat i) \<noteq> None"
    using page_of_stack [of _ _ "0x1000"] len by simp
  have "8 * length stack \<le> 2 ^ 64" using len by simp
  from start_stack_roundtrip [OF b m _ this, of "0x400"] b show ?thesis by auto
qed

end
