(* ===== verification/Execute.thy ===== *)
theory Execute
  imports Relocate Tls Start_Stack
begin

text \<open>
  \<open>DynLoader::Execute\<close> and \<open>DynLoader::Run\<close>. The constructors of the loaded files are
  code of the program, not of the loader: calling one is the parameter \<open>call\<close>, which may
  change memory and, through \<open>dlopen\<close>, the loader. Where the heap holds the characters of
  a vector of strings is the parameter \<open>c_strs\<close>. The result is the machine at the jump to
  the program's entry.
\<close>

section \<open>State\<close>

record machine =
  loader :: DynLoader
  process :: proc
  tls_offset :: u64 \<comment> \<open>\<open>sloader_tls_offset\<close>\<close>
  called :: "addr list" \<comment> \<open>the constructors called so far, in order\<close>

type_synonym foreign = "addr \<Rightarrow> DynLoader \<times> proc \<Rightarrow> (DynLoader \<times> proc) res"

section \<open>Constructors\<close>

definition call_init :: "foreign \<Rightarrow> addr \<Rightarrow> machine \<Rightarrow> machine res" where
  "call_init call f s =
     rbind (call f (loader s, process s)) (\<lambda>(L, P).
     Inr (s\<lparr>loader := L, process := P, called := called s @ [f]\<rparr>))"

text \<open>
  The entries \<open>js\<close> of \<open>DT_INIT_ARRAY\<close> still to be called; a null entry ends the loop.
  The file \<open>b\<close> is passed along: \<open>dlopen\<close> only appends to the loaded files, so the members
  of one that is loaded do not change under the loop, while memory is read anew each time.
\<close>

fun init_array_loop :: "foreign \<Rightarrow> ELFBinary \<Rightarrow> nat list \<Rightarrow> machine \<Rightarrow> machine res" where
  "init_array_loop call b [] s = Inr s"
| "init_array_loop call b (j # js) s =
     rbind (read_u64 (mem (process s)) (init_array b + base_addr b + 8 * of_nat j)) (\<lambda>f.
       if f = 0 then Inr s
       else rbind (call_init call f s) (init_array_loop call b js))"

definition init_binary :: "foreign \<Rightarrow> machine \<Rightarrow> nat \<Rightarrow> machine res" where
  "init_binary call s i =
     (let b = binaries (loader s) ! i
      in rbind (if init b \<noteq> 0 then call_init call (init b + base_addr b) s else Inr s) (\<lambda>s.
         if init_arraysz b \<noteq> 0 then
           rbind (CHECK (init_arraysz b mod 8 = 0)) (\<lambda>_.
           init_array_loop call b [0..<unat (init_arraysz b div 8)] s)
         else Inr s))"

definition init_all :: "foreign \<Rightarrow> machine \<Rightarrow> machine res" where
  "init_all call s =
     foldR (init_binary call) s (rev [0..<length (binaries (loader s))])"

section \<open>Execute and Run\<close>

definition Execute ::
  "os \<Rightarrow> foreign \<Rightarrow> addr \<Rightarrow> (string list \<Rightarrow> u64 list) \<Rightarrow> string list \<Rightarrow> string list \<Rightarrow> addr \<Rightarrow>
   machine \<Rightarrow> (machine \<times> addr \<times> addr) res" where
  "Execute os call T c_strs args_arg envs_arg rsp s =
     rbind (init_all call s) (\<lambda>s.
     rbind (CHECK (os_getauxval os AT_RANDOM \<noteq> 0)) (\<lambda>_.
     let auxs = aux_tvs os;
         stack_num = 4 + 2 + 2 * length auxs + 1 + length envs_arg + 2 + length args_arg;
         (stack, stack_index) = build_stack auxs (c_strs envs_arg) (c_strs args_arg)
     in rbind (CHECK (stack_index = stack_num)) (\<lambda>_.
        rbind (init_tls T (binaries (loader s)) (mem (process s), tls_offset s)) (\<lambda>(m, off).
        let main_bin = binaries (loader s) ! 0
        in rbind (ExecuteCore stack (e_entry (ehdr main_bin) + base_addr main_bin) (m, rsp))
             (\<lambda>(m, rsp, rip).
           Inr (s\<lparr>process := (process s)\<lparr>mem := m\<rparr>, tls_offset := off\<rparr>, rsp, rip))))))"

definition Run ::
  "os \<Rightarrow> libc \<Rightarrow> foreign \<Rightarrow> (string list \<Rightarrow> u64 list) \<Rightarrow> addr \<Rightarrow> machine \<Rightarrow>
   (machine \<times> addr \<times> addr) res" where
  "Run os lc call c_strs rsp s =
     rbind (LoadDependingLibs os (main_path (loader s)) (loader s, process s)) (\<lambda>LP.
     rbind (Relocate lc LP) (\<lambda>(L, P).
     Execute os call (tls_block lc) c_strs (args L) (envs L) rsp (s\<lparr>loader := L, process := P\<rparr>)))"

section \<open>The order of constructors\<close>

text \<open>
  The specification for constructors that neither change the arrays nor load files: every
  file, dependencies first, its \<open>DT_INIT\<close> function and then its array up to the first null.
\<close>

fun array_upto_null :: "memory \<Rightarrow> ELFBinary \<Rightarrow> nat list \<Rightarrow> addr list res" where
  "array_upto_null m b [] = Inr []"
| "array_upto_null m b (j # js) =
     rbind (read_u64 m (init_array b + base_addr b + 8 * of_nat j)) (\<lambda>f.
       if f = 0 then Inr []
       else rbind (array_upto_null m b js) (\<lambda>fs. Inr (f # fs)))"

definition init_functions :: "memory \<Rightarrow> ELFBinary \<Rightarrow> addr list res" where
  "init_functions m b =
     rbind (if init_arraysz b = 0 then Inr []
            else rbind (CHECK (8 dvd unat (init_arraysz b))) (\<lambda>_.
              array_upto_null m b [0..<unat (init_arraysz b) div 8])) (\<lambda>fs.
     Inr ((if init b = 0 then [] else [init b + base_addr b]) @ fs))"

definition init_order :: "memory \<Rightarrow> ELFBinary list \<Rightarrow> addr list res" where
  "init_order m bs = rbind (mapR (init_functions m) (rev bs)) (\<lambda>fss. Inr (concat fss))"

text \<open>A constructor that returns, and leaves the loader and the arrays of all files alone.\<close>

definition init_array_bytes :: "ELFBinary list \<Rightarrow> addr set" where
  "init_array_bytes bs = {init_array b + base_addr b + of_nat i | b i.
     b \<in> set bs \<and> i < unat (init_arraysz b)}"

definition calm :: "foreign \<Rightarrow> bool" where
  "calm call \<longleftrightarrow> (\<forall>f L P. \<exists>P'. call f (L, P) = Inr (L, P') \<and>
     (\<forall>x \<in> init_array_bytes (binaries L). mem P' x = mem P x))"

text \<open>State \<open>s\<close> still has loader \<open>L\<close> and the arrays as they are in \<open>m\<close>.\<close>

definition same_arrays :: "DynLoader \<Rightarrow> memory \<Rightarrow> machine \<Rightarrow> bool" where
  "same_arrays L m s \<longleftrightarrow> loader s = L \<and>
     (\<forall>x \<in> init_array_bytes (binaries L). mem (process s) x = m x)"

lemma call_init_calm:
  assumes "calm call" and "same_arrays L m s"
  shows "\<exists>s'. call_init call f s = Inr s' \<and> same_arrays L m s' \<and> called s' = called s @ [f]"
proof -
  from assms(1) obtain P' where "call f (loader s, process s) = Inr (loader s, P')"
    "\<forall>x \<in> init_array_bytes (binaries (loader s)). mem P' x = mem (process s) x"
    unfolding calm_def by blast
  with assms(2) show ?thesis by (simp add: call_init_def same_arrays_def)
qed

lemma array_entry_same:
  assumes "same_arrays L m s" and "b \<in> set (binaries L)" and "8 * j + 8 \<le> unat (init_arraysz b)"
  shows "read_u64 (mem (process s)) (init_array b + base_addr b + 8 * of_nat j) =
    read_u64 m (init_array b + base_addr b + 8 * of_nat j)"
proof (rule read_u64_cong)
  fix i :: nat
  assume i: "i < 8"
  have "init_array b + base_addr b + 8 * of_nat j + of_nat i =
      init_array b + base_addr b + of_nat (8 * j + i)" by simp
  moreover have "\<dots> \<in> init_array_bytes (binaries L)"
    unfolding init_array_bytes_def using assms(2,3) i
    by (intro CollectI exI [of _ b] exI [of _ "8 * j + i"]) simp
  ultimately show "mem (process s) (init_array b + base_addr b + 8 * of_nat j + of_nat i) =
      m (init_array b + base_addr b + 8 * of_nat j + of_nat i)"
    using assms(1) unfolding same_arrays_def by metis
qed

lemma init_array_loop_calm:
  assumes "calm call" and "b \<in> set (binaries L)"
  shows "same_arrays L m s \<Longrightarrow> \<forall>j \<in> set js. 8 * j + 8 \<le> unat (init_arraysz b) \<Longrightarrow>
    array_upto_null m b js = Inr fs \<Longrightarrow>
    \<exists>s'. init_array_loop call b js s = Inr s' \<and> same_arrays L m s' \<and> called s' = called s @ fs"
proof (induction js arbitrary: s fs)
  case Nil
  then show ?case by simp
next
  case (Cons j js)
  let ?a = "init_array b + base_addr b + 8 * of_nat j"
  from Cons.prems(3) obtain f where f: "read_u64 m ?a = Inr f" by (auto simp: res_simps)
  from array_entry_same [OF Cons.prems(1) assms(2)] Cons.prems(2) f
  have r: "read_u64 (mem (process s)) ?a = Inr f" by simp
  show ?case
  proof (cases "f = 0")
    case True
    with Cons.prems f r show ?thesis by simp
  next
    case False
    with Cons.prems(3) f obtain fs' where fs: "array_upto_null m b js = Inr fs'" "fs = f # fs'"
      by (auto simp: res_simps)
    from call_init_calm [OF assms(1) Cons.prems(1)] obtain s1 where
      "call_init call f s = Inr s1" "same_arrays L m s1" "called s1 = called s @ [f]" by blast
    with Cons.IH [of s1 fs'] Cons.prems(2) fs False r show ?thesis by auto
  qed
qed

lemma init_binary_calm:
  assumes "calm call" and "same_arrays L m s" and "i < length (binaries L)"
    and "init_functions m (binaries L ! i) = Inr fs"
  shows "\<exists>s'. init_binary call s i = Inr s' \<and> same_arrays L m s' \<and> called s' = called s @ fs"
proof -
  let ?b = "binaries L ! i" and ?js = "[0..<unat (init_arraysz (binaries L ! i)) div 8]"
  have b: "?b \<in> set (binaries L)" and l: "loader s = L"
    using assms(2,3) by (simp_all add: same_arrays_def)
  let ?pre = "if init ?b = 0 then [] else [init ?b + base_addr ?b]"
  obtain s1 where s1: "(if init ?b \<noteq> 0 then call_init call (init ?b + base_addr ?b) s else Inr s) = Inr s1"
    "same_arrays L m s1" "called s1 = called s @ ?pre"
    using call_init_calm [OF assms(1,2), of "init ?b + base_addr ?b"] assms(2)
    by (cases "init ?b = 0") auto
  have w: "unat (init_arraysz ?b div 8) = unat (init_arraysz ?b) div 8"
    "init_arraysz ?b mod 8 = 0 \<longleftrightarrow> 8 dvd unat (init_arraysz ?b)"
    by (simp_all add: unat_div unat_mod unat_eq_0 [symmetric] dvd_eq_mod_eq_0)
  show ?thesis
  proof (cases "init_arraysz ?b = 0")
    case True
    with assms(4) have "fs = ?pre" by (simp add: init_functions_def)
    with s1 True l show ?thesis by (simp add: init_binary_def)
  next
    case False
    with assms(4) obtain fs' where d: "8 dvd unat (init_arraysz ?b)"
      and fs: "array_upto_null m ?b ?js = Inr fs'" "fs = ?pre @ fs'"
      by (auto simp: init_functions_def res_simps)
    have "\<forall>j \<in> set ?js. 8 * j + 8 \<le> unat (init_arraysz ?b)" by auto
    from init_array_loop_calm [OF assms(1) b s1(2) this fs(1)] obtain s' where
      "init_array_loop call ?b ?js s1 = Inr s'" "same_arrays L m s'" "called s' = called s1 @ fs'"
      by blast
    with s1 fs d False l w show ?thesis by (auto simp: init_binary_def rbind_CHECK)
  qed
qed

lemma init_loop_calm:
  assumes "calm call"
  shows "same_arrays L m s \<Longrightarrow> \<forall>i \<in> set is. i < length (binaries L) \<Longrightarrow>
    mapR (init_functions m) (map ((!) (binaries L)) is) = Inr fss \<Longrightarrow>
    \<exists>s'. foldR (init_binary call) s is = Inr s' \<and> same_arrays L m s' \<and> called s' = called s @ concat fss"
proof (induction "is" arbitrary: s fss)
  case Nil
  then show ?case by simp
next
  case (Cons i "is")
  from Cons.prems(3) obtain fs fss' where fs: "init_functions m (binaries L ! i) = Inr fs"
    "mapR (init_functions m) (map ((!) (binaries L)) is) = Inr fss'" "fss = fs # fss'"
    by (auto simp: res_simps)
  from init_binary_calm [OF assms Cons.prems(1) _ fs(1)] Cons.prems(2) obtain s1 where
    "init_binary call s i = Inr s1" "same_arrays L m s1" "called s1 = called s @ fs" by auto
  with Cons.IH [of s1 fss'] Cons.prems(2) fs show ?case by auto
qed

section \<open>Properties\<close>

text \<open>
  C10: constructors run in reverse load order. If they return and leave the loader and the
  constructor arrays alone, exactly the prescribed functions are called, each once: for every
  file, the last loaded first and the executable last, its \<open>DT_INIT\<close> function and then the
  entries of \<open>DT_INIT_ARRAY\<close> up to the first null.
\<close>

theorem constructors_reverse_load_order:
  assumes "calm call" and "init_order (mem (process s)) (binaries (loader s)) = Inr fs"
  shows "\<exists>s'. init_all call s = Inr s' \<and> called s' = called s @ fs \<and> loader s' = loader s"
proof -
  let ?L = "loader s" and ?m = "mem (process s)"
  have s: "same_arrays ?L ?m s" by (simp add: same_arrays_def)
  from assms(2) obtain fss where fss: "mapR (init_functions ?m) (rev (binaries ?L)) = Inr fss"
    "fs = concat fss" by (auto simp: init_order_def res_simps)
  have "map ((!) (binaries ?L)) (rev [0..<length (binaries ?L)]) = rev (binaries ?L)"
    by (simp add: rev_map [symmetric] map_nth)
  with init_loop_calm [OF assms(1) s, of "rev [0..<length (binaries ?L)]" fss] fss
  obtain s' where "init_all call s = Inr s'" "same_arrays ?L ?m s'" "called s' = called s @ fs"
    unfolding init_all_def by auto
  then show ?thesis by (auto simp: same_arrays_def)
qed

section \<open>A sample\<close>

text \<open>
  A library with an array of two constructors and a null between them, and an executable with
  a \<open>DT_INIT\<close> function.
\<close>

definition ctor_mem :: memory where
  "ctor_mem = map_at (\<lambda>_. None) 0x30000 24 (\<lambda>i. if i = 1 then 0x50 else if i = 17 then 0x60 else 0)"

definition ctor_loader :: DynLoader where
  "ctor_loader = f_loader\<lparr>binaries := [(f_bin ''/a'' 0x10000 0)\<lparr>init := 0x40\<rparr>,
     (f_bin ''/b'' 0x20000 1)\<lparr>init_array := 0x10000, init_arraysz := 24\<rparr>]\<rparr>"

definition ctor_machine :: machine where
  "ctor_machine = \<lparr>loader = ctor_loader, process = (empty_proc 0)\<lparr>mem := ctor_mem\<rparr>,
     tls_offset = sloader_tls_offset, called = []\<rparr>"

definition quiet_call :: foreign where
  "quiet_call f LP = Inr LP"

lemma quiet_calm: "calm quiet_call"
  by (simp add: calm_def quiet_call_def)

lemma ctor_order:
  "init_order (mem (process ctor_machine)) (binaries (loader ctor_machine)) = Inr [0x5000, 0x10040]"
proof -
  let ?b = "(f_bin ''/b'' 0x20000 1)\<lparr>init_array := 0x10000, init_arraysz := 24\<rparr>"
  have "array_upto_null ctor_mem ?b [0..<3] = Inr [0x5000]"
    by (simp add: eval_simps ctor_mem_def f_bin_def new_ELFBinary_def)
  then have "init_functions ctor_mem ?b = Inr [0x5000]"
    by (simp add: init_functions_def f_bin_def new_ELFBinary_def CHECK_def)
  moreover have "init_functions ctor_mem ((f_bin ''/a'' 0x10000 0)\<lparr>init := 0x40\<rparr>) = Inr [0x10040]"
    by (simp add: init_functions_def f_bin_def new_ELFBinary_def)
  ultimately show ?thesis by (simp add: init_order_def ctor_machine_def ctor_loader_def)
qed

theorem constructors_reverse_load_order_witness:
  "calm quiet_call \<and>
   init_order (mem (process ctor_machine)) (binaries (loader ctor_machine)) = Inr [0x5000, 0x10040] \<and>
   (\<exists>s'. init_all quiet_call ctor_machine = Inr s' \<and> called s' = [0x5000, 0x10040])"
  using constructors_reverse_load_order [OF quiet_calm ctor_order] quiet_calm ctor_order
  by (auto simp: ctor_machine_def)

end
