(* ===== verification/Sloader_Dl.thy ===== *)
theory Sloader_Dl
  imports Relocate
begin

text \<open>
  \<open>sloader_dl.cc\<close>: the replacements of the \<open>dlfcn.h\<close> functions, over the global
  \<open>dynloader\<close> of \<open>dyn_loader.cc\<close> and its accessors \<open>InitializeDynLoader\<close> and
  \<open>GetDynLoader\<close>.
\<close>

section \<open>The global loader\<close>

type_synonym global = "DynLoader option \<times> proc"

definition GetDynLoader :: "global \<Rightarrow> DynLoader res" where
  "GetDynLoader g = (case fst g of None \<Rightarrow> Inl (ExitWith 1) | Some L \<Rightarrow> Inr L)"

section \<open>The functions\<close>

definition sloader_dlopen ::
  "os \<Rightarrow> libc \<Rightarrow> string option \<Rightarrow> int \<Rightarrow> global \<Rightarrow> (addr \<times> global) res" where
  "sloader_dlopen os lc file_name flags g =
     (case file_name of
        None \<Rightarrow> Inr (0xabcdabcdabcdabcd, g)
      | Some f \<Rightarrow>
          if contains f ''ld-linux'' \<or> contains f ''libc.so'' then Inr (0xaaaaaaaabbbbbbbb, g)
          else
            rbind (GetDynLoader g) (\<lambda>L.
            rbind (FindLibrary os (fds (snd g)) f None None) (\<lambda>path.
            rbind (LoadDependingLibs os path (L, snd g)) (\<lambda>LP.
            rbind (Relocate lc LP) (\<lambda>(L, P).
            Inr (0xdeadbeefdeadbeef, (Some L, P)))))))"

definition sloader_dlsym :: "addr \<Rightarrow> string \<Rightarrow> global \<Rightarrow> addr res" where
  "sloader_dlsym handle symbol g =
     rbind (GetDynLoader g) (\<lambda>L.
     rbind (SearchSym (mem (snd g)) L symbol False) (\<lambda>opt.
       case opt of
         None \<Rightarrow> Inl (ExitWith 1)
       | Some (bin_index, sym_index) \<Rightarrow> GetSymbolAddr (binaries L ! bin_index) sym_index))"

text \<open>\<open>dlvsym\<close> prints its arguments and leaves; the call behind \<open>exit\<close> is never reached.\<close>

definition sloader_dlvsym :: "addr \<Rightarrow> string \<Rightarrow> string \<Rightarrow> global \<Rightarrow> addr res" where
  "sloader_dlvsym handle symbol version g = Inl (ExitWith 10)"

text \<open>\<open>dladdr\<close> of libc is a parameter.\<close>

definition sloader_dladdr ::
  "(addr \<Rightarrow> addr \<Rightarrow> proc \<Rightarrow> (int \<times> proc) res) \<Rightarrow> addr \<Rightarrow> addr \<Rightarrow> proc \<Rightarrow> (int \<times> proc) res" where
  "sloader_dladdr dladdr a info P = dladdr a info P"

section \<open>Properties\<close>

lemma sloader_dlopen_parts:
  assumes "sloader_dlopen os lc (Some f) flags (Some L, P) = Inr (h, g)"
    and "\<not> skipped_library f"
  obtains path L1 P1 L2 P2 where "FindLibrary os (fds P) f None None = Inr path"
    "LoadDependingLibs os path (L, P) = Inr (L1, P1)" "Relocate lc (L1, P1) = Inr (L2, P2)"
    "h = 0xdeadbeefdeadbeef" "g = (Some L2, P2)"
  using assms by (auto simp: sloader_dlopen_def GetDynLoader_def skipped_library_def res_simps)


text \<open>
  C29: \<open>dlsym\<close> ignores its handle: it resolves the name over all files in load order like
  a relocation does, and leaves with status 1 when no file knows the name instead of returning
  null.
\<close>

theorem dlsym_global:
  assumes "names_readable (mem P) L"
  shows "(sloader_dlsym handle symbol (Some L, P) = Inr a \<longleftrightarrow>
      (\<exists>i j. resolves (mem P) L symbol False (Some (i, j)) \<and>
        a = base_addr (binaries L ! i) + st_value (symtabs (binaries L ! i) ! j))) \<and>
    (sloader_dlsym handle symbol (Some L, P) = Inl (ExitWith 1) \<longleftrightarrow>
      resolves (mem P) L symbol False None)"
proof -
  obtain r where r: "SearchSym (mem P) L symbol False = Inr r"
    using SearchSym_total assms unfolding names_readable_def by blast
  note res = SearchSym_resolves [OF r]
  have u: "resolves (mem P) L symbol False r' \<longleftrightarrow> r' = r" for r'
    using resolves_unique [OF res, of r'] res by blast
  show ?thesis
  proof (cases r)
    case None
    with r u show ?thesis by (simp add: sloader_dlsym_def GetDynLoader_def)
  next
    case (Some ij)
    obtain i j where ij: "ij = (i, j)" by fastforce
    with r u Some GetSymbolAddr_match [OF res [unfolded Some ij]] show ?thesis
      by (auto simp: sloader_dlsym_def GetDynLoader_def add.commute)
  qed
qed


section \<open>The properties on a sample\<close>

definition dl_host :: os where
  "dl_host = host_with [(''/a'', dyn_file)]"

definition dl_loader :: "(path \<Rightarrow> bool) \<Rightarrow> DynLoader" where
  "dl_loader dn = \<lparr>main_path = ''/a'', args = [], envs = [], next_base_addr = 0x1400000,
     loaded = {}, relocated = dn, binaries = []\<rparr>"

lemma dl_find: "FindLibrary dl_host k ''/a'' None None = Inr ''/a''"
  by (simp add: FindLibrary_def dl_host_def is_absolute_def slash_def)

lemma dl_not_skipped: "\<not> skipped_library ''/a''"
  by (simp add: skipped_library_def contains_def)

lemma dl_opens:
  "\<exists>L' P'. sloader_dlopen dl_host no_libc (Some ''/a'') 0 (Some (dl_loader dn), empty_proc 5) =
     Inr (0xdeadbeefdeadbeef, (Some L', P'))"
proof -
  obtain b P1 where l: "LoadDependingLibs dl_host ''/a'' (dl_loader dn, empty_proc 5) =
       Inr ((dl_loader dn)\<lparr>binaries := [b], next_base_addr := 0x1800000,
              loaded := {filename ''/a''}\<rparr>, P1)" and b: "relas b = []" "pltrelas b = []"
    using dyn_load_libs [of "dl_loader dn"] by (auto simp: dl_host_def dl_loader_def)
  let ?L = "(dl_loader dn)\<lparr>binaries := [b], next_base_addr := 0x1800000, loaded := {filename ''/a''}\<rparr>"
  obtain dn' m where "relocate_bin no_libc ?L (dn, mem P1) b = Inr (dn', m)"
    by (cases "dn (path_key (bin_path b))") (auto simp: relocate_bin_def b Let_def)
  moreover have "relocated ?L = dn" "binaries ?L = [b]" by (simp_all add: dl_loader_def)
  ultimately obtain L2 P2 where "Relocate no_libc (?L, P1) = Inr (L2, P2)"
    by (simp add: Relocate_def)
  with l dl_find [of 5] dl_not_skipped show ?thesis
    by (simp add: sloader_dlopen_def GetDynLoader_def skipped_library_def)
qed


theorem dlsym_global_witness:
  "names_readable (mem plt_proc) plt_loader \<and>
   sloader_dlsym 0 ''f'' (Some plt_loader, plt_proc) = Inr 0x1800040"
proof -
  have "resolves (mem plt_proc) plt_loader ''f'' False (Some (1, 0))"
    using SearchSym_resolves [OF plt_SearchSym] .
  moreover have "base_addr (binaries plt_loader ! 1) + st_value (symtabs (binaries plt_loader ! 1) ! 0) = 0x1800040"
    by (simp add: plt_loader_def f_bin_def f_sym_def)
  ultimately show ?thesis
    using dlsym_global [OF plt_names, of 0 "''f''" "0x1800040"] plt_names by metis
qed


end
