(* ===== verification/Libc_Mapping.thy ===== *)
theory Libc_Mapping
  imports Tls
begin

text \<open>
  \<open>libc_mapping.cc\<close>: the replacements for libc that loaded programs are bound to. The
  initialiser list of \<open>sloader_libc_map\<close> is reproduced entry by entry; the addresses the
  linker gives to the C symbols it mentions are the parameter \<open>link\<close>.
\<close>

section \<open>C symbols\<close>

text \<open>An entry is the address of a C object or function, or the value of a pointer variable.\<close>

datatype c_expr = AddrOf string | ValueOf string

text \<open>The function pointer variables and the overload each is initialised with.\<close>

definition pointer_variables :: "(string \<times> string) list" where
  "pointer_variables =
    [(''strchr_c'', ''strchr''), (''strrchr_c'', ''strrchr''),
     (''rawmemchr_c'', ''rawmemchr''), (''wmemchr_c'', ''wmemchr''),
     (''memchr_c'', ''memchr''), (''strstr_c'', ''strstr''), (''strpbrk_c'', ''strpbrk''),
     (''frexp_c'', ''frexp''), (''ldexp_c'', ''ldexp''), (''strchrnul_c'', ''strchrnul''),
     (''strcasestr_c'', ''strcasestr''), (''modf_c'', ''modf''), (''rindex_c'', ''rindex''),
     (''wcsstr_c'', ''wcsstr''), (''wcspbrk_c'', ''wcspbrk'')]"

definition c_value :: "(string \<Rightarrow> addr) \<Rightarrow> c_expr \<Rightarrow> addr" where
  "c_value link e =
     (case e of
        AddrOf x \<Rightarrow> link x
      | ValueOf x \<Rightarrow> (case map_of pointer_variables x of Some f \<Rightarrow> link f | None \<Rightarrow> link x))"

definition own :: "string \<Rightarrow> string \<times> c_expr" where
  "own name = (name, AddrOf name)"

section \<open>Functions the loader defines\<close>

text \<open>The empty functions of \<open>DEFINE_DUMMY_FUN\<close>, each called \<open>sloader_\<close> and the name.\<close>

definition dummy_functions :: "string list" where
  "dummy_functions =
    [''ZSTD_trace_compress_begin'', ''ZSTD_trace_compress_end'',
     ''ZSTD_trace_decompress_begin'', ''ZSTD_trace_decompress_end'',
     ''_ITM_deregisterTMCloneTable'', ''_ITM_registerTMCloneTable'', ''__asprintf_chk'',
     ''__assert_fail'', ''__cxa_finalize'', ''__gmon_start__'', ''__gmtime_r'',
     ''__libc_dn_expand'', ''__libc_ns_makecanon'', ''__libc_ns_samename'',
     ''__libc_res_nameinquery'', ''__libc_res_queriesmatch'', ''__stack_chk_fail'',
     ''__xpg_strerror_r'', ''__xstat'', ''atexit'', ''__cxa_atexit'', ''_nl_msg_cat_cntr'',
     ''__fxstat'', ''__strtold_nan'', ''__strtod_nan'', ''__strtof128_nan'', ''__strtof_nan'',
     ''_rtld_global_ro'', ''__cxa_thread_atexit_impl'', ''delete_module'', ''init_module'',
     ''__libc_dynarray_resize'', ''_libc_intl_domainname'', ''__nss_configure_lookup'',
     ''__progname_full'', ''__progname'', ''__res_context_hostalias'', ''__res_context_query'',
     ''__res_context_search'', ''__resolv_context_get_override'', ''__resolv_context_get'',
     ''__resolv_context_put'', ''__res_get_nsaddr'', ''__res_iclose'']"

definition dummy_function :: "proc \<Rightarrow> proc" where
  "dummy_function P = P"

definition sloader_atexit_always_success :: "addr \<Rightarrow> proc \<Rightarrow> int \<times> proc" where
  "sloader_atexit_always_success function P = (0, P)"

text \<open>\<open>memchr\<close> of C: the address of the first byte that equals \<open>c\<close>, or null.\<close>

fun memchr :: "memory \<Rightarrow> addr \<Rightarrow> byte \<Rightarrow> nat \<Rightarrow> addr res" where
  "memchr m s c 0 = Inr 0"
| "memchr m s c (Suc n) =
     (case m s of
        None \<Rightarrow> Inl Segv
      | Some b \<Rightarrow> if b = c then Inr s else memchr m (s + 1) c n)"

definition memrchr_c :: "memory \<Rightarrow> addr \<Rightarrow> byte \<Rightarrow> u64 \<Rightarrow> addr res" where
  "memrchr_c m s c n = memchr m s c (unat n)"

text \<open>
  The two wrappers of wide-character searches and \<open>__register_atfork\<close> pass their arguments on
  to functions of libc, which are parameters; \<open>dso_handle\<close> is dropped.
\<close>

definition wcschr_c :: "(addr \<Rightarrow> u32 \<Rightarrow> proc \<Rightarrow> addr res) \<Rightarrow> addr \<Rightarrow> u32 \<Rightarrow> proc \<Rightarrow> addr res" where
  "wcschr_c wcschr str character P = wcschr str character P"

definition wcsrchr_c :: "(addr \<Rightarrow> u32 \<Rightarrow> proc \<Rightarrow> addr res) \<Rightarrow> addr \<Rightarrow> u32 \<Rightarrow> proc \<Rightarrow> addr res" where
  "wcsrchr_c wcsrchr wcs wc P = wcsrchr wcs wc P"

definition sloader_register_atfork ::
  "(addr \<Rightarrow> addr \<Rightarrow> addr \<Rightarrow> proc \<Rightarrow> (int \<times> proc) res) \<Rightarrow> addr \<Rightarrow> addr \<Rightarrow> addr \<Rightarrow> addr \<Rightarrow> proc \<Rightarrow>
   (int \<times> proc) res" where
  "sloader_register_atfork pthread_atfork prepare parent child dso_handle P =
     pthread_atfork prepare parent child P"

text \<open>
  \<open>__libc_start_main\<close>: run \<open>main\<close> with the loader's own environment and exit with its
  result. \<open>init\<close>, \<open>fini\<close> and \<open>rtld_fini\<close> are ignored.
\<close>

definition sloader_libc_start_main ::
  "(int \<Rightarrow> addr \<Rightarrow> addr \<Rightarrow> proc \<Rightarrow> (int \<times> proc) res) \<Rightarrow> addr \<Rightarrow> int \<Rightarrow> addr \<Rightarrow> proc \<Rightarrow> unit res" where
  "sloader_libc_start_main main environ argc argv P =
     rbind (main argc argv environ P) (\<lambda>(status, P). Inl (ExitWith status))"

section \<open>Thread-local variables\<close>

definition sloader_libc_tls_variables :: "(string \<Rightarrow> addr) \<Rightarrow> string \<Rightarrow> addr option" where
  "sloader_libc_tls_variables link =
     [''errno'' \<mapsto> link ''errno'', ''__h_errno'' \<mapsto> link ''h_errno'', ''__resp'' \<mapsto> link ''_res'']"

section \<open>The table\<close>

definition libc_map_dummy :: "(string \<times> c_expr) list" where
  "libc_map_dummy =
    [(''ZSTD_trace_compress_begin'', AddrOf ''sloader_ZSTD_trace_compress_begin''),
     (''ZSTD_trace_compress_end'', AddrOf ''sloader_ZSTD_trace_compress_end''),
     (''ZSTD_trace_decompress_begin'', AddrOf ''sloader_ZSTD_trace_decompress_begin''),
     (''ZSTD_trace_decompress_end'', AddrOf ''sloader_ZSTD_trace_decompress_end''),
     (''_ITM_deregisterTMCloneTable'', AddrOf ''sloader__ITM_deregisterTMCloneTable''),
     (''_ITM_registerTMCloneTable'', AddrOf ''sloader__ITM_registerTMCloneTable''),
     (''__asprintf_chk'', AddrOf ''sloader___asprintf_chk''),
     (''__assert_fail'', AddrOf ''sloader___assert_fail''),
     (''__cxa_atexit'', AddrOf ''sloader_atexit_always_success''),
     (''__cxa_finalize'', AddrOf ''sloader___cxa_finalize''),
     (''__cxa_thread_atexit_impl'', AddrOf ''sloader___cxa_thread_atexit_impl''),
     (''__fxstat'', AddrOf ''sloader___fxstat''),
     (''__gmon_start__'', AddrOf ''sloader___gmon_start__''),
     (''__gmtime_r'', AddrOf ''sloader___gmtime_r''),
     (''__libc_dn_expand'', AddrOf ''sloader___libc_dn_expand''),
     (''__libc_dynarray_resize'', AddrOf ''sloader___libc_dynarray_resize''),
     (''__libc_ns_makecanon'', AddrOf ''sloader___libc_ns_makecanon''),
     (''__libc_ns_samename'', AddrOf ''sloader___libc_ns_samename''),
     (''__libc_res_nameinquery'', AddrOf ''sloader___libc_res_nameinquery''),
     (''__libc_res_queriesmatch'', AddrOf ''sloader___libc_res_queriesmatch''),
     (''__nss_configure_lookup'', AddrOf ''sloader___nss_configure_lookup''),
     (''__progname'', AddrOf ''sloader___progname''),
     (''__progname_full'', AddrOf ''sloader___progname_full''),
     (''__res_context_hostalias'', AddrOf ''sloader___res_context_hostalias''),
     (''__res_context_query'', AddrOf ''sloader___res_context_query''),
     (''__res_context_search'', AddrOf ''sloader___res_context_search''),
     (''__res_get_nsaddr'', AddrOf ''sloader___res_get_nsaddr''),
     (''__res_iclose'', AddrOf ''sloader___res_iclose''),
     (''__resolv_context_get'', AddrOf ''sloader___resolv_context_get''),
     (''__resolv_context_get_override'', AddrOf ''sloader___resolv_context_get_override''),
     (''__resolv_context_put'', AddrOf ''sloader___resolv_context_put''),
     (''__stack_chk_fail'', AddrOf ''sloader___stack_chk_fail''),
     (''__strtod_nan'', AddrOf ''sloader___strtod_nan''),
     (''__strtof128_nan'', AddrOf ''sloader___strtof128_nan''),
     (''__strtof_nan'', AddrOf ''sloader___strtof_nan''),
     (''__strtold_nan'', AddrOf ''sloader___strtold_nan''),
     (''__xpg_strerror_r'', AddrOf ''sloader___xpg_strerror_r''),
     (''__xstat'', AddrOf ''sloader___xstat''),
     (''_libc_intl_domainname'', AddrOf ''sloader__libc_intl_domainname''),
     (''_nl_msg_cat_cntr'', AddrOf ''sloader__nl_msg_cat_cntr''),
     (''_rtld_global_ro'', AddrOf ''sloader__rtld_global_ro''),
     (''atexit'', AddrOf ''sloader_atexit''),
     (''delete_module'', AddrOf ''sloader_delete_module''),
     (''init_module'', AddrOf ''sloader_init_module'')]"

definition libc_map_original :: "(string \<times> c_expr) list" where
  "libc_map_original =
    [(''__libc_start_main'', AddrOf ''sloader_libc_start_main''),
     (''__register_atfork'', AddrOf ''sloader_register_atfork''),
     (''__tls_get_addr'', AddrOf ''sloader_tls_get_addr'')]"

definition libc_map_libc_1 :: "(string \<times> c_expr) list" where
  "libc_map_libc_1 =
    [own ''__ctype_b_loc'', own ''__ctype_get_mb_cur_max'', own ''__ctype_tolower_loc'',
     own ''__ctype_toupper_loc'', own ''__dcgettext'', own ''__dprintf_chk'',
     (''__duplocale'', AddrOf ''duplocale''), own ''__environ'', own ''__errno_location'',
     own ''__explicit_bzero_chk'', own ''__fdelt_chk'', own ''__fgets_chk'',
     own ''__fgets_unlocked_chk'', own ''__fgetws_chk'', own ''__fpending'',
     own ''__fprintf_chk'', own ''__fpurge'', own ''__fread_chk'',
     own ''__fread_unlocked_chk'', own ''__freading'',
     (''__freelocale'', AddrOf ''freelocale''), own ''__fsetlocking'', own ''__fwriting'',
     own ''__getdelim'', own ''__getgroups_chk'', own ''__gethostname_chk'',
     own ''__getpagesize'', own ''__h_errno_location'',
     (''__isoc99_fscanf'', AddrOf ''fscanf''), (''__isoc99_scanf'', AddrOf ''scanf''),
     (''__isoc99_sscanf'', AddrOf ''sscanf''), (''__isoc99_vfscanf'', AddrOf ''vfscanf''),
     (''__isoc99_vsscanf'', AddrOf ''vsscanf''), (''__iswctype_l'', AddrOf ''iswctype_l''),
     own ''__libc_current_sigrtmax'', own ''__libc_current_sigrtmin'',
     own ''__libc_current_sigrtmin'', own ''__libc_single_threaded'',
     (''__longjmp_chk'', AddrOf ''longjmp''), own ''__mbrlen'', own ''__mbsnrtowcs_chk'',
     own ''__mbsrtowcs_chk'', own ''__mbstowcs_chk'', (''__memcpy_chk'', AddrOf ''memcpy''),
     (''__memmove_chk'', AddrOf ''memmove''), own ''__mempcpy'',
     (''__mempcpy_chk'', AddrOf ''mempcpy''), (''__memset_chk'', AddrOf ''memset''),
     (''__newlocale'', AddrOf ''newlocale''), (''__nl_langinfo_l'', AddrOf ''nl_langinfo_l''),
     own ''__open64_2'', own ''__open_2'', own ''__openat64_2'', own ''__openat_2'',
     own ''__overflow'', own ''__poll_chk'', own ''__ppoll_chk'', own ''__pread64_chk'',
     own ''__pread_chk'', own ''__printf_chk'', (''__rawmemchr'', AddrOf ''rawmemchr_c''),
     own ''__read_chk'', own ''__realpath_chk'', own ''__res_init'', own ''__res_nclose'',
     own ''__res_ninit'', own ''__resp'', own ''__sched_cpualloc'', own ''__sched_cpucount'',
     own ''__sched_cpufree'', own ''__sigsetjmp'', own ''__snprintf_chk'',
     own ''__sprintf_chk'', own ''__stpcpy'', (''__stpcpy_chk'', AddrOf ''stpcpy''),
     (''__strcat_chk'', AddrOf ''strcat''), (''__strcoll_l'', AddrOf ''strcoll_l''),
     (''__strcpy_chk'', AddrOf ''strcpy''), (''__strftime_l'', AddrOf ''strftime_l''),
     (''__strncat_chk'', AddrOf ''strncat''), (''__strncpy_chk'', AddrOf ''strncpy''),
     (''__strtod_l'', AddrOf ''strtod_l''), (''__strtof_l'', AddrOf ''strtof_l''),
     (''__strxfrm_l'', AddrOf ''strxfrm_l''), own ''__sysconf'', own ''__syslog_chk'',
     own ''__sysv_signal'', own ''__timezone'', (''__towlower_l'', AddrOf ''towlower_l''),
     (''__towupper_l'', AddrOf ''towupper_l''), own ''__uflow'',
     (''__uselocale'', AddrOf ''__gnu_cxx::__uselocale''), own ''__vasprintf_chk'',
     own ''__vfprintf_chk'', own ''__vsnprintf_chk'', own ''__vsprintf_chk'',
     own ''__vsyslog_chk'', (''__wcscoll_l'', AddrOf ''wcscoll_l''),
     (''__wcsftime_l'', AddrOf ''wcsftime_l''), own ''__wcsncpy_chk'',
     (''__wcsxfrm_l'', AddrOf ''wcsxfrm_l''), own ''__wctomb_chk'',
     (''__wctype_l'', AddrOf ''wctype_l''), own ''__wmemcpy_chk'', own ''__wmemmove_chk'',
     own ''__wmemset_chk'', own ''__xpg_basename'', own ''_dl_find_object'', own ''_exit'',
     own ''_longjmp'', own ''_obstack_begin'', own ''_obstack_newchunk'',
     (''_obstack_free'', AddrOf ''obstack_free''), own ''_setjmp'', own ''abort'',
     own ''accept'', own ''accept4'', own ''access'', own ''access'', own ''alarm'',
     own ''aligned_alloc'', own ''alphasort'', own ''alphasort64'',
     own ''argp_err_exit_status'', own ''argp_help'', own ''argp_parse'',
     own ''argz_create_sep'', own ''asctime'', own ''asctime_r'', own ''asprintf'',
     own ''atof'', own ''atoi'', own ''atol'', own ''atoll'', own ''backtrace'',
     own ''backtrace_symbols'', own ''backtrace_symbols_fd'', own ''basename'', own ''bind'',
     own ''bind_textdomain_codeset'', own ''bindtextdomain'', own ''bsearch'', own ''bsearch'',
     own ''bsearch'', own ''bsearch'', own ''bsearch'', own ''btowc'', own ''calloc'',
     own ''canonicalize_file_name'']"

definition libc_map_libc_2 :: "(string \<times> c_expr) list" where
  "libc_map_libc_2 =
    [own ''capget'', own ''capset'', own ''cfgetispeed'', own ''cfgetospeed'',
     own ''cfmakeraw'', own ''cfsetispeed'', own ''cfsetospeed'', own ''cfsetspeed'',
     own ''chdir'', own ''chmod'', own ''chown'', own ''chroot'', own ''clearenv'',
     own ''clearerr'', own ''clearerr_unlocked'', own ''clock'', own ''clock_getres'',
     own ''clock_gettime'', own ''clock_settime'', own ''clone'', own ''close'',
     own ''close_range'', own ''closedir'', own ''closefrom'', own ''closelog'',
     own ''confstr'', own ''connect'', own ''copy_file_range'', own ''creat'', own ''creat64'',
     own ''ctermid'', own ''ctime'', own ''ctime_r'', own ''daemon'', own ''dcgettext'',
     own ''dcngettext'', own ''dgettext'', own ''difftime'', own ''dirfd'', own ''dirname'',
     own ''dl_iterate_phdr'', (''dladdr'', AddrOf ''sloader_dladdr''), own ''dlclose'',
     own ''dlerror'', (''dlopen'', AddrOf ''sloader_dlopen''),
     (''dlsym'', AddrOf ''sloader_dlsym''), (''dlvsym'', AddrOf ''sloader_dlvsym''),
     own ''dn_expand'', own ''dn_skipname'', own ''dngettext'', own ''dup'', own ''dup2'',
     own ''dup3'', own ''duplocale'', own ''duplocale'', own ''duplocale'', own ''duplocale'',
     own ''eaccess'', own ''endaliasent'', own ''endgrent'', own ''endhostent'',
     own ''endmntent'', own ''endnetent'', own ''endnetgrent'', own ''endprotoent'',
     own ''endpwent'', own ''endrpcent'', own ''endservent'', own ''endsgent'',
     own ''endspent'', own ''endusershell'', own ''endutent'', own ''endutxent'',
     own ''environ'', own ''epoll_create'', own ''epoll_create1'', own ''epoll_ctl'',
     own ''epoll_pwait'', own ''epoll_wait'', own ''err'', own ''error'',
     own ''error_at_line'', own ''errx'', own ''ether_aton'', own ''ether_hostton'',
     own ''ether_ntoa'', own ''ether_ntohost'', own ''euidaccess'', own ''eventfd'',
     own ''eventfd_read'', own ''eventfd_write'', own ''execl'', own ''execle'',
     own ''execlp'', own ''execv'', own ''execve'', own ''execvp'', own ''exit'',
     own ''faccessat'', own ''fallocate'', own ''fallocate64'', own ''fchdir'', own ''fchmod'',
     own ''fchmodat'', own ''fchown'', own ''fchownat'', own ''fclose'', own ''fcntl'',
     own ''fcntl64'', own ''fdatasync'', own ''fdopen'', own ''fdopendir'', own ''feof'',
     own ''ferror'', own ''fexecve'', own ''fflush'', own ''fflush_unlocked'', own ''fgetc'',
     own ''fgets'', own ''fgets_unlocked'', own ''fgetwc'', own ''fgetxattr'', own ''fileno'',
     own ''fileno_unlocked'', own ''flistxattr'', own ''flock'', own ''flockfile'',
     own ''fmemopen'', own ''fnmatch'', own ''fopen'', own ''fopen64'', own ''fopencookie'',
     own ''fork'', own ''forkpty'', own ''fpathconf'', own ''fprintf'', own ''fputc'',
     own ''fputc_unlocked'', own ''fputs'', own ''fputs_unlocked'', own ''fputwc'',
     own ''fputws'', own ''fread'', own ''fread_unlocked'', own ''free'', own ''freeaddrinfo'',
     own ''freeaddrinfo'', own ''freeaddrinfo'', own ''freeaddrinfo'', own ''freeaddrinfo'']"

definition libc_map_libc_3 :: "(string \<times> c_expr) list" where
  "libc_map_libc_3 =
    [own ''freeifaddrs'', own ''freelocale'', own ''fremovexattr'', own ''freopen'',
     own ''freopen64'', (''frexp'', ValueOf ''frexp_c''), own ''frexpl'', own ''fscanf'',
     own ''fseek'', own ''fseeko'', own ''fseeko64'', own ''fsetxattr'', own ''fstat'',
     own ''fstat64'', own ''fstatat'', own ''fstatat64'', own ''fstatfs'', own ''fstatfs64'',
     own ''fstatvfs'', own ''fstatvfs64'', own ''fsync'', own ''ftell'', own ''ftello'',
     own ''ftello64'', own ''ftruncate'', own ''ftruncate64'', own ''fts_close'',
     own ''fts_open'', own ''fts_read'', own ''fts_set'', own ''ftw'', own ''funlockfile'',
     own ''futimens'', own ''futimesat'', own ''fwrite'', own ''fwrite_unlocked'',
     own ''gai_strerror'', own ''get_current_dir_name'', own ''get_nprocs'',
     own ''getaddrinfo'', own ''getaliasbyname'', own ''getaliasent'', own ''getauxval'',
     own ''getc'', own ''getcontext'', own ''getcwd'', own ''getdelim'', own ''getdomainname'',
     own ''getdtablesize'', own ''getegid'', own ''getentropy'', own ''getenv'',
     own ''geteuid'', own ''getgid'', own ''getgrent'', own ''getgrgid'', own ''getgrgid_r'',
     own ''getgrnam'', own ''getgrnam_r'', own ''getgrouplist'', own ''getgroups'',
     own ''gethostbyaddr'', own ''gethostbyaddr_r'', own ''gethostbyname'',
     own ''gethostbyname2'', own ''gethostbyname_r'', own ''gethostent'', own ''gethostid'',
     own ''gethostname'', own ''getifaddrs'', own ''getifaddrs'', own ''getitimer'',
     own ''getline'', own ''getloadavg'', own ''getlogin'', own ''getmntent'',
     own ''getmntent_r'', own ''getnameinfo'', own ''getnetbyaddr'', own ''getnetbyname'',
     own ''getnetent'', own ''getnetgrent'', own ''getopt'', own ''getopt_long'',
     own ''getopt_long_only'', own ''getpagesize'', own ''getpass'', own ''getpeername'',
     own ''getpgid'', own ''getpgrp'', own ''getpid'', own ''getppid'', own ''getpriority'',
     own ''getprotobyname'', own ''getprotobynumber'', own ''getprotoent'', own ''getpwent'',
     own ''getpwnam'', own ''getpwnam_r'', own ''getpwuid'', own ''getpwuid_r'',
     own ''getpwuid_r'', own ''getpwuid_r'', own ''getrandom'', own ''getresgid'',
     own ''getresuid'', own ''getrlimit'', own ''getrlimit64'', own ''getrpcbyname'',
     own ''getrpcbynumber'', own ''getrpcent'', own ''getrusage'', own ''getservbyname'',
     own ''getservbyport'', own ''getservbyport_r'', own ''getservent'', own ''getsgent'',
     own ''getsgnam'', own ''getsid'', own ''getsockname'', own ''getsockopt'',
     own ''getspent'', own ''getspnam'', own ''getspnam_r'', own ''gettext'', own ''gettid'',
     own ''gettimeofday'', own ''getttynam'', own ''getuid'', own ''getusershell'',
     own ''getutent'', own ''getutline'', own ''getutxent'', own ''getutxline'', own ''getwc'',
     own ''getwchar'', own ''getxattr'', own ''glob'', own ''glob64'', own ''glob_pattern_p'',
     own ''globfree'', own ''globfree64'', own ''gmtime'', own ''gmtime_r'',
     own ''gnu_dev_major'', own ''gnu_dev_major'', own ''gnu_dev_major'',
     own ''gnu_dev_major'', own ''gnu_dev_major'', own ''gnu_dev_makedev'']"

definition libc_map_libc_4 :: "(string \<times> c_expr) list" where
  "libc_map_libc_4 =
    [own ''gnu_dev_makedev'', own ''gnu_dev_makedev'', own ''gnu_dev_makedev'',
     own ''gnu_dev_makedev'', own ''gnu_dev_minor'', own ''gnu_dev_minor'',
     own ''gnu_dev_minor'', own ''gnu_dev_minor'', own ''gnu_dev_minor'',
     own ''gnu_get_libc_version'', own ''grantpt'', own ''group_member'', own ''hasmntopt'',
     own ''herror'', own ''hstrerror'', own ''iconv'', own ''iconv_close'', own ''iconv_open'',
     own ''if_freenameindex'', own ''if_indextoname'', own ''if_nameindex'',
     own ''if_nametoindex'', own ''in6addr_any'', own ''in6addr_any'',
     own ''in6addr_loopback'', own ''inet_addr'', own ''inet_aton'', own ''inet_nsap_ntoa'',
     own ''inet_ntoa'', own ''inet_ntop'', own ''inet_pton'', own ''initgroups'',
     own ''innetgr'', own ''inotify_add_watch'', own ''inotify_init'', own ''inotify_init1'',
     own ''inotify_rm_watch'', own ''ioctl'', own ''iopl'', own ''isalnum'', own ''isalpha'',
     own ''isatty'', own ''isblank'', own ''iscntrl'', own ''isdigit'', own ''isgraph'',
     own ''islower'', own ''isprint'', own ''ispunct'', own ''isspace'', own ''isupper'',
     own ''iswalnum'', own ''iswalpha'', (''iswcntrl'', AddrOf ''iscntrl''), own ''iswctype'',
     own ''iswdigit'', own ''iswgraph'', own ''iswlower'', (''iswprint'', AddrOf ''isprint''),
     own ''iswspace'', own ''iswupper'', own ''isxdigit'', own ''jrand48'', own ''kill'',
     own ''killpg'', own ''klogctl'', own ''l64a'', own ''lchmod'', own ''lchown'',
     own ''lckpwdf'', (''ldexp'', ValueOf ''ldexp_c''), own ''ldexpl'', own ''lgetxattr'',
     own ''link'', own ''linkat'', own ''listen'', own ''listen'', own ''listxattr'',
     own ''llistxattr'', own ''localeconv'', own ''localtime'', own ''localtime_r'',
     own ''lockf'', own ''lockf64'', own ''lremovexattr'', own ''lsearch'', own ''lseek'',
     own ''lseek'', own ''lseek64'', own ''lsetxattr'', own ''lstat'', own ''lstat64'',
     own ''lutimes'', own ''madvise'', own ''makecontext'', own ''mallinfo'',
     own ''mallinfo2'', own ''malloc'', own ''malloc_trim'', own ''malloc_usable_size'',
     own ''mblen'', own ''mbrtowc'', own ''mbsinit'', own ''mbsnrtowcs'', own ''mbsrtowcs'',
     own ''mbstowcs'', own ''mbtowc'', own ''memccpy'', (''memchr'', ValueOf ''memchr_c''),
     own ''memcmp'', own ''memcpy'', own ''memfd_create'', own ''memmem'', own ''memmove'',
     own ''mempcpy'', (''memrchr'', AddrOf ''memrchr_c''), own ''memset'', own ''mincore'',
     own ''mkdir'', own ''mkdirat'', own ''mkdtemp'', own ''mkfifo'', own ''mkfifoat'',
     own ''mknod'', own ''mknodat'', own ''mkostemp'', own ''mkostemp64'', own ''mkstemp'',
     own ''mkstemp64'', own ''mkstemp64'', own ''mkstemps'', own ''mktime'', own ''mlock'',
     own ''mmap'', own ''mmap64'', (''modf'', AddrOf ''modf_c''), own ''mount'',
     own ''mprotect'', own ''mq_getattr'', own ''mremap'', own ''msgctl'', own ''msync'',
     own ''mtrace'', own ''munlock'', own ''munmap'', own ''name_to_handle_at'',
     own ''nanosleep'', own ''newlocale'', own ''nftw64'', own ''nice'']"

definition libc_map_libc_5 :: "(string \<times> c_expr) list" where
  "libc_map_libc_5 =
    [own ''nl_langinfo'', own ''ns_name_uncompress'', own ''ntp_gettimex'',
     own ''obstack_free'', own ''obstack_printf'', own ''obstack_vprintf'', own ''open'',
     own ''open64'', own ''open_by_handle_at'', own ''open_memstream'', own ''openat'',
     own ''openat64'', own ''opendir'', own ''openlog'', own ''openpty'', own ''optarg'',
     own ''opterr'', own ''optind'', own ''optopt'', own ''parse_printf_format'',
     own ''pathconf'', own ''pause'', own ''pclose'', own ''perror'', own ''personality'',
     own ''pipe'', own ''pipe2'', own ''poll'', own ''popen'', own ''posix_fadvise'',
     own ''posix_fadvise64'', own ''posix_fallocate'', own ''posix_fallocate64'',
     own ''posix_madvise'', own ''posix_memalign'', own ''posix_openpt'', own ''posix_spawn'',
     own ''posix_spawn_file_actions_addclose'', own ''posix_spawn_file_actions_adddup2'',
     own ''posix_spawn_file_actions_addopen'', own ''posix_spawn_file_actions_destroy'',
     own ''posix_spawn_file_actions_init'', own ''posix_spawnattr_destroy'',
     own ''posix_spawnattr_init'', own ''posix_spawnattr_setflags'',
     own ''posix_spawnattr_setpgroup'', own ''posix_spawnattr_setschedparam'',
     own ''posix_spawnattr_setschedpolicy'', own ''posix_spawnattr_setsigdefault'',
     own ''posix_spawnattr_setsigmask'', own ''posix_spawnp'', own ''ppoll'', own ''prctl'',
     own ''pread'', own ''pread64'', own ''preadv64v2'', own ''printf'',
     own ''process_vm_readv'', own ''process_vm_writev'', own ''program_invocation_name'',
     own ''program_invocation_short_name'', own ''pselect'', own ''pthread_getattr_np'',
     own ''pthread_attr_getguardsize'', (''__fxstat64'', AddrOf ''fstat64''),
     own ''pthread_attr_getstack'', own ''bcmp'', (''__lxstat64'', AddrOf ''lstat64''),
     (''__xstat64'', AddrOf ''stat64''), (''__fxstatat64'', AddrOf ''fstatat64''),
     own ''pthread_attr_destroy'', own ''pthread_attr_getstacksize'',
     own ''pthread_attr_init'', own ''pthread_attr_setdetachstate'',
     own ''pthread_attr_setguardsize'', own ''pthread_attr_setinheritsched'',
     own ''pthread_attr_setscope'', own ''pthread_attr_setstacksize'',
     own ''pthread_barrier_destroy'', own ''pthread_barrier_init'',
     own ''pthread_barrier_wait'', own ''pthread_cancel'', own ''pthread_cond_broadcast'',
     own ''pthread_cond_broadcast'', own ''pthread_cond_destroy'',
     own ''pthread_cond_destroy'', own ''pthread_cond_init'', own ''pthread_cond_init'',
     own ''pthread_cond_signal'', own ''pthread_cond_signal'', own ''pthread_cond_timedwait'',
     own ''pthread_cond_wait'', own ''pthread_cond_wait'', own ''pthread_condattr_destroy'',
     own ''pthread_condattr_init'', own ''pthread_condattr_setclock'',
     own ''pthread_condattr_setpshared'', own ''pthread_create'', own ''pthread_detach'',
     own ''pthread_equal'', own ''pthread_exit'', own ''pthread_getconcurrency'',
     own ''pthread_getcpuclockid'', own ''pthread_getname_np'', own ''pthread_getspecific'',
     own ''pthread_getspecific'', own ''pthread_getspecific'', own ''pthread_join'',
     own ''pthread_join'', own ''pthread_join'', own ''pthread_join'',
     own ''pthread_key_create'', own ''pthread_key_delete'', own ''pthread_kill'',
     own ''pthread_mutex_consistent'', own ''pthread_mutex_consistent'',
     own ''pthread_mutex_consistent'', own ''pthread_mutex_consistent'',
     own ''pthread_mutex_destroy'', own ''pthread_mutex_init'', own ''pthread_mutex_lock'',
     own ''pthread_mutex_timedlock'', own ''pthread_mutex_trylock'',
     own ''pthread_mutex_unlock'', own ''pthread_mutexattr_destroy'',
     own ''pthread_mutexattr_init'', own ''pthread_mutexattr_setpshared'',
     own ''pthread_mutexattr_setrobust'', own ''pthread_mutexattr_setrobust'',
     own ''pthread_mutexattr_setrobust'', own ''pthread_mutexattr_setrobust'',
     own ''pthread_mutexattr_settype'', own ''pthread_once'', own ''pthread_rwlock_destroy'',
     own ''pthread_rwlock_init'', own ''pthread_rwlock_rdlock'',
     own ''pthread_rwlock_timedrdlock'', own ''pthread_rwlock_timedwrlock'',
     own ''pthread_rwlock_tryrdlock'', own ''pthread_rwlock_trywrlock'',
     own ''pthread_rwlock_unlock'', own ''pthread_rwlock_wrlock'',
     own ''pthread_rwlockattr_destroy'', own ''pthread_rwlockattr_init'',
     own ''pthread_rwlockattr_setkind_np'', own ''pthread_rwlockattr_setpshared'',
     own ''pthread_self'', own ''pthread_setcancelstate'']"

definition libc_map_libc_6 :: "(string \<times> c_expr) list" where
  "libc_map_libc_6 =
    [own ''pthread_setconcurrency'', own ''pthread_setname_np'', own ''pthread_setspecific'',
     own ''pthread_sigmask'', own ''pthread_tryjoin_np'', own ''ptrace'', own ''ptsname'',
     own ''ptsname_r'', own ''putc'', own ''putchar'', own ''putenv'', own ''putgrent'',
     own ''putpwent'', own ''puts'', own ''putsgent'', own ''putspent'', own ''pututline'',
     own ''pututxline'', own ''putwc'', own ''putwchar'', own ''pwrite'', own ''pwrite64'',
     own ''pwritev64v2'', own ''qsort'', own ''qsort_r'', own ''raise'', own ''rand'',
     own ''rand_r'', own ''random'', (''rawmemchr'', ValueOf ''rawmemchr_c''),
     own ''re_compile_pattern'', own ''re_match'', own ''re_search'', own ''re_set_syntax'',
     own ''read'', own ''readdir'', own ''readdir64'', own ''readlink'', own ''readlinkat'',
     own ''readv'', own ''realloc'', own ''reallocarray'', own ''realpath'', own ''recv'',
     own ''recvfrom'', own ''recvmmsg'', own ''recvmsg'', own ''regcomp'', own ''regerror'',
     own ''regexec'', own ''regfree'', own ''remove'', own ''removexattr'', own ''rename'',
     own ''renameat'', own ''renameat2'', own ''res_dnok'', own ''res_hnok'',
     own ''res_nquery'', own ''res_nsearch'', own ''res_query'', own ''rewind'',
     own ''rewinddir'', (''rindex'', AddrOf ''rindex_c''), own ''rmdir'', own ''rpmatch'',
     own ''ruserok'', own ''sbrk'', own ''scandir'', own ''scandir64'', own ''scandirat'',
     own ''sched_get_priority_max'', own ''sched_get_priority_min'', own ''sched_getaffinity'',
     own ''sched_getparam'', own ''sched_getscheduler'', own ''sched_rr_get_interval'',
     own ''sched_setaffinity'', own ''sched_setparam'', own ''sched_setscheduler'',
     own ''sched_yield'', own ''secure_getenv'', own ''select'', own ''sem_clockwait'',
     own ''sem_destroy'', own ''sem_init'', own ''sem_post'', own ''sem_trywait'',
     own ''sem_wait'', own ''semctl'', own ''send'', own ''sendfile'', own ''sendfile64'',
     own ''sendmmsg'', own ''sendmsg'', own ''sendto'', own ''setaliasent'', own ''setbuf'',
     own ''setbuf'', own ''setbuffer'', own ''setcontext'', own ''setdomainname'',
     own ''setegid'', own ''setenv'', own ''seteuid'', own ''setfsgid'', own ''setfsuid'',
     own ''setgid'', own ''setgrent'', own ''setgroups'', own ''sethostent'',
     own ''sethostname'', own ''setitimer'', own ''setlinebuf'', own ''setlocale'',
     own ''setlogmask'', own ''setmntent'', own ''setnetent'', own ''setnetgrent'',
     own ''setns'', own ''setpgid'', own ''setpgrp'', own ''setpriority'', own ''setprotoent'',
     own ''setpwent'', own ''setregid'', own ''setresgid'', own ''setresuid'',
     own ''setreuid'', own ''setrlimit'', own ''setrlimit64'', own ''setrpcent'',
     own ''setservent'', own ''setsgent'', own ''setsid'', own ''setsid'', own ''setsockopt'',
     own ''setspent'', own ''settimeofday'', own ''setuid'', own ''setusershell'',
     own ''setutent'', own ''setutxent'', own ''setvbuf'', own ''setxattr'', own ''sgetspent'',
     own ''shmat'', own ''shmctl'', own ''shmdt'', own ''shmget'']"

definition libc_map_libc_7 :: "(string \<times> c_expr) list" where
  "libc_map_libc_7 =
    [own ''shutdown'', own ''sigabbrev_np'', own ''sigaction'', own ''sigaddset'',
     own ''sigaltstack'', own ''sigdelset'', own ''sigemptyset'', own ''sigfillset'',
     own ''sigfillset'', own ''sigfillset'', own ''sigisemptyset'', own ''sigismember'',
     own ''signal'', own ''signalfd'', own ''sigpending'', own ''sigprocmask'',
     own ''sigqueue'', own ''sigset'', own ''sigsuspend'', own ''sigtimedwait'',
     own ''sigwait'', own ''sigwaitinfo'', own ''sleep'', own ''snprintf'', own ''socket'',
     own ''socketpair'', own ''splice'', own ''sprintf'', own ''sprintf'', own ''srand'',
     own ''srandom'', own ''sscanf'', own ''stat'', own ''stat64'', own ''statfs'',
     own ''statfs'', own ''statfs64'', own ''statvfs'', own ''statvfs64'', own ''statx'',
     own ''stderr'', own ''stdin'', own ''stdout'', own ''stpcpy'', own ''stpncpy'',
     own ''strcasecmp'', (''strcasestr'', AddrOf ''strcasestr_c''), own ''strcat'',
     (''strchr'', ValueOf ''strchr_c''), (''strchrnul'', ValueOf ''strchrnul_c''),
     own ''strcmp'', own ''strcoll'', own ''strcpy'', own ''strcspn'', own ''strdup'',
     own ''strdup'', own ''strerror'', own ''strerror_l'', own ''strerror_r'',
     own ''strftime'', own ''strlen'', own ''strncasecmp'', own ''strncat'', own ''strncmp'',
     own ''strncpy'', own ''strndup'', own ''strnlen'', (''strpbrk'', ValueOf ''strpbrk_c''),
     own ''strptime'', (''strrchr'', ValueOf ''strrchr_c''), own ''strsep'', own ''strsignal'',
     own ''strspn'', (''strstr'', ValueOf ''strstr_c''), own ''strtod'', own ''strtod_l'',
     own ''strtof'', own ''strtoimax'', own ''strtok'', own ''strtok_r'', own ''strtok_r'',
     own ''strtol'', own ''strtold'', own ''strtold_l'', own ''strtoll'', own ''strtoll_l'',
     own ''strtoul'', own ''strtoull'', own ''strtoull_l'', own ''strtoumax'',
     own ''strverscmp'', own ''strxfrm'', own ''swapcontext'', own ''symlink'',
     own ''symlinkat'', own ''sync'', own ''sync_file_range'', own ''syncfs'', own ''syscall'',
     own ''sysconf'', own ''sysinfo'', own ''system'', own ''tcdrain'', own ''tcflow'',
     own ''tcflush'', own ''tcflush'', own ''tcgetattr'', own ''tcgetpgrp'', own ''tcsetattr'',
     own ''tcsetpgrp'', own ''tdelete'', own ''tdestroy'', own ''tempnam'', own ''textdomain'',
     own ''tfind'', own ''time'', own ''timegm'', own ''timer_create'', own ''timer_delete'',
     own ''timer_gettime'', own ''timer_settime'', own ''timerfd_create'',
     own ''timerfd_settime'', own ''times'', own ''tmpfile'', own ''tmpfile64'',
     own ''tolower'', own ''toupper'', own ''towlower'', own ''towupper'', own ''truncate'',
     own ''truncate64'', own ''tsearch'', own ''ttyname'', own ''ttyname_r'', own ''twalk'',
     own ''tzname'', own ''tzset'', own ''ulckpwdf'', own ''umask'', own ''umount'',
     own ''umount2'', own ''uname'', own ''uname'', own ''ungetc'', own ''ungetwc'',
     own ''unlink'', own ''unlinkat'', own ''unlockpt'', own ''unsetenv'']"

definition libc_map_libc_8 :: "(string \<times> c_expr) list" where
  "libc_map_libc_8 =
    [own ''unshare'', own ''updwtmpx'', own ''uselocale'', own ''usleep'', own ''utime'',
     own ''utimensat'', own ''utimes'', own ''utmpxname'', own ''vasprintf'',
     own ''versionsort'', own ''vfork'', own ''vfprintf'', own ''vmsplice'', own ''vsnprintf'',
     own ''wait'', own ''wait3'', own ''wait4'', own ''waitid'', own ''waitpid'', own ''warn'',
     own ''warnx'', own ''wcrtomb'', own ''wcscat'', (''wcschr'', AddrOf ''wcschr_c''),
     own ''wcscmp'', own ''wcscoll'', own ''wcscpy'', own ''wcscspn'', own ''wcsdup'',
     own ''wcsftime'', own ''wcslen'', own ''wcsncat'', own ''wcsncmp'', own ''wcsncpy'',
     own ''wcsnlen'', own ''wcsnrtombs'', (''wcspbrk'', AddrOf ''wcspbrk_c''),
     (''wcsrchr'', AddrOf ''wcsrchr_c''), own ''wcsrtombs'', (''wcsstr'', AddrOf ''wcsstr_c''),
     own ''wcstok'', own ''wcstol'', own ''wcstombs'', own ''wcswidth'', own ''wcsxfrm'',
     own ''wctob'', own ''wctomb'', own ''wctype'', own ''wcwidth'',
     (''wmemchr'', AddrOf ''wmemchr_c''), own ''wmemcmp'', own ''wmemcpy'', own ''wmemmove'',
     own ''wmemset'', own ''write'', own ''writev'']"

definition libc_map_entries :: "(string \<times> c_expr) list" where
  "libc_map_entries = concat [libc_map_dummy, libc_map_original, libc_map_libc_1, libc_map_libc_2, libc_map_libc_3, libc_map_libc_4, libc_map_libc_5, libc_map_libc_6, libc_map_libc_7, libc_map_libc_8]"

text \<open>
  A \<open>std::map\<close> built from a list keeps the first entry of a key.
\<close>

definition sloader_libc_map :: "(string \<Rightarrow> addr) \<Rightarrow> string \<Rightarrow> addr option" where
  "sloader_libc_map link name = map_option (c_value link) (map_of libc_map_entries name)"

text \<open>What the loader sees of this file and of \<open>tls_secure.cc\<close>.\<close>

definition sloader_libc :: "(string \<Rightarrow> addr) \<Rightarrow> libc" where
  "sloader_libc link = \<lparr>libc_map = sloader_libc_map link,
     libc_tls_variables = sloader_libc_tls_variables link,
     tls_block = link ''sloader_dummy_to_secure_tls_space''\<rparr>"

section \<open>What the table binds\<close>

text \<open>All entries whose expression is not the address of the C symbol of the same name.\<close>

definition renamed_entries :: "(string \<times> c_expr) list" where
  "renamed_entries =
    [(''ZSTD_trace_compress_begin'', AddrOf ''sloader_ZSTD_trace_compress_begin''),
     (''ZSTD_trace_compress_end'', AddrOf ''sloader_ZSTD_trace_compress_end''),
     (''ZSTD_trace_decompress_begin'', AddrOf ''sloader_ZSTD_trace_decompress_begin''),
     (''ZSTD_trace_decompress_end'', AddrOf ''sloader_ZSTD_trace_decompress_end''),
     (''_ITM_deregisterTMCloneTable'', AddrOf ''sloader__ITM_deregisterTMCloneTable''),
     (''_ITM_registerTMCloneTable'', AddrOf ''sloader__ITM_registerTMCloneTable''),
     (''__asprintf_chk'', AddrOf ''sloader___asprintf_chk''),
     (''__assert_fail'', AddrOf ''sloader___assert_fail''),
     (''__cxa_atexit'', AddrOf ''sloader_atexit_always_success''),
     (''__cxa_finalize'', AddrOf ''sloader___cxa_finalize''),
     (''__cxa_thread_atexit_impl'', AddrOf ''sloader___cxa_thread_atexit_impl''),
     (''__fxstat'', AddrOf ''sloader___fxstat''),
     (''__gmon_start__'', AddrOf ''sloader___gmon_start__''),
     (''__gmtime_r'', AddrOf ''sloader___gmtime_r''),
     (''__libc_dn_expand'', AddrOf ''sloader___libc_dn_expand''),
     (''__libc_dynarray_resize'', AddrOf ''sloader___libc_dynarray_resize''),
     (''__libc_ns_makecanon'', AddrOf ''sloader___libc_ns_makecanon''),
     (''__libc_ns_samename'', AddrOf ''sloader___libc_ns_samename''),
     (''__libc_res_nameinquery'', AddrOf ''sloader___libc_res_nameinquery''),
     (''__libc_res_queriesmatch'', AddrOf ''sloader___libc_res_queriesmatch''),
     (''__nss_configure_lookup'', AddrOf ''sloader___nss_configure_lookup''),
     (''__progname'', AddrOf ''sloader___progname''),
     (''__progname_full'', AddrOf ''sloader___progname_full''),
     (''__res_context_hostalias'', AddrOf ''sloader___res_context_hostalias''),
     (''__res_context_query'', AddrOf ''sloader___res_context_query''),
     (''__res_context_search'', AddrOf ''sloader___res_context_search''),
     (''__res_get_nsaddr'', AddrOf ''sloader___res_get_nsaddr''),
     (''__res_iclose'', AddrOf ''sloader___res_iclose''),
     (''__resolv_context_get'', AddrOf ''sloader___resolv_context_get''),
     (''__resolv_context_get_override'', AddrOf ''sloader___resolv_context_get_override''),
     (''__resolv_context_put'', AddrOf ''sloader___resolv_context_put''),
     (''__stack_chk_fail'', AddrOf ''sloader___stack_chk_fail''),
     (''__strtod_nan'', AddrOf ''sloader___strtod_nan''),
     (''__strtof128_nan'', AddrOf ''sloader___strtof128_nan''),
     (''__strtof_nan'', AddrOf ''sloader___strtof_nan''),
     (''__strtold_nan'', AddrOf ''sloader___strtold_nan''),
     (''__xpg_strerror_r'', AddrOf ''sloader___xpg_strerror_r''),
     (''__xstat'', AddrOf ''sloader___xstat''),
     (''_libc_intl_domainname'', AddrOf ''sloader__libc_intl_domainname''),
     (''_nl_msg_cat_cntr'', AddrOf ''sloader__nl_msg_cat_cntr''),
     (''_rtld_global_ro'', AddrOf ''sloader__rtld_global_ro''),
     (''atexit'', AddrOf ''sloader_atexit''),
     (''delete_module'', AddrOf ''sloader_delete_module''),
     (''init_module'', AddrOf ''sloader_init_module''),
     (''__libc_start_main'', AddrOf ''sloader_libc_start_main''),
     (''__register_atfork'', AddrOf ''sloader_register_atfork''),
     (''__tls_get_addr'', AddrOf ''sloader_tls_get_addr''),
     (''__duplocale'', AddrOf ''duplocale''), (''__freelocale'', AddrOf ''freelocale''),
     (''__isoc99_fscanf'', AddrOf ''fscanf''), (''__isoc99_scanf'', AddrOf ''scanf''),
     (''__isoc99_sscanf'', AddrOf ''sscanf''), (''__isoc99_vfscanf'', AddrOf ''vfscanf''),
     (''__isoc99_vsscanf'', AddrOf ''vsscanf''), (''__iswctype_l'', AddrOf ''iswctype_l''),
     (''__longjmp_chk'', AddrOf ''longjmp''), (''__memcpy_chk'', AddrOf ''memcpy''),
     (''__memmove_chk'', AddrOf ''memmove''), (''__mempcpy_chk'', AddrOf ''mempcpy''),
     (''__memset_chk'', AddrOf ''memset''), (''__newlocale'', AddrOf ''newlocale''),
     (''__nl_langinfo_l'', AddrOf ''nl_langinfo_l''),
     (''__rawmemchr'', AddrOf ''rawmemchr_c''), (''__stpcpy_chk'', AddrOf ''stpcpy''),
     (''__strcat_chk'', AddrOf ''strcat''), (''__strcoll_l'', AddrOf ''strcoll_l''),
     (''__strcpy_chk'', AddrOf ''strcpy''), (''__strftime_l'', AddrOf ''strftime_l''),
     (''__strncat_chk'', AddrOf ''strncat''), (''__strncpy_chk'', AddrOf ''strncpy''),
     (''__strtod_l'', AddrOf ''strtod_l''), (''__strtof_l'', AddrOf ''strtof_l''),
     (''__strxfrm_l'', AddrOf ''strxfrm_l''), (''__towlower_l'', AddrOf ''towlower_l''),
     (''__towupper_l'', AddrOf ''towupper_l''),
     (''__uselocale'', AddrOf ''__gnu_cxx::__uselocale''),
     (''__wcscoll_l'', AddrOf ''wcscoll_l''), (''__wcsftime_l'', AddrOf ''wcsftime_l''),
     (''__wcsxfrm_l'', AddrOf ''wcsxfrm_l''), (''__wctype_l'', AddrOf ''wctype_l''),
     (''_obstack_free'', AddrOf ''obstack_free''), (''dladdr'', AddrOf ''sloader_dladdr''),
     (''dlopen'', AddrOf ''sloader_dlopen''), (''dlsym'', AddrOf ''sloader_dlsym''),
     (''dlvsym'', AddrOf ''sloader_dlvsym''), (''frexp'', ValueOf ''frexp_c''),
     (''iswcntrl'', AddrOf ''iscntrl''), (''iswprint'', AddrOf ''isprint''),
     (''ldexp'', ValueOf ''ldexp_c''), (''memchr'', ValueOf ''memchr_c''),
     (''memrchr'', AddrOf ''memrchr_c''), (''modf'', AddrOf ''modf_c''),
     (''__fxstat64'', AddrOf ''fstat64''), (''__lxstat64'', AddrOf ''lstat64''),
     (''__xstat64'', AddrOf ''stat64''), (''__fxstatat64'', AddrOf ''fstatat64''),
     (''rawmemchr'', ValueOf ''rawmemchr_c''), (''rindex'', AddrOf ''rindex_c''),
     (''strcasestr'', AddrOf ''strcasestr_c''), (''strchr'', ValueOf ''strchr_c''),
     (''strchrnul'', ValueOf ''strchrnul_c''), (''strpbrk'', ValueOf ''strpbrk_c''),
     (''strrchr'', ValueOf ''strrchr_c''), (''strstr'', ValueOf ''strstr_c''),
     (''wcschr'', AddrOf ''wcschr_c''), (''wcspbrk'', AddrOf ''wcspbrk_c''),
     (''wcsrchr'', AddrOf ''wcsrchr_c''), (''wcsstr'', AddrOf ''wcsstr_c''),
     (''wmemchr'', AddrOf ''wmemchr_c'')]"

definition plain_or_renamed :: "string \<times> c_expr \<Rightarrow> bool" where
  "plain_or_renamed e \<longleftrightarrow> e = own (fst e) \<or> e \<in> set renamed_entries"

lemma plain_own [simp]: "plain_or_renamed (own n)"
  by (simp add: plain_or_renamed_def own_def)

lemma plain_dummy: "list_all plain_or_renamed libc_map_dummy"
  unfolding libc_map_dummy_def
  by (simp, (simp add: plain_or_renamed_def renamed_entries_def)?)

lemma plain_original: "list_all plain_or_renamed libc_map_original"
  unfolding libc_map_original_def
  by (simp, (simp add: plain_or_renamed_def renamed_entries_def)?)

lemma plain_libc_1: "list_all plain_or_renamed libc_map_libc_1"
  unfolding libc_map_libc_1_def
  by (simp, (simp add: plain_or_renamed_def renamed_entries_def)?)

lemma plain_libc_2: "list_all plain_or_renamed libc_map_libc_2"
  unfolding libc_map_libc_2_def
  by (simp, (simp add: plain_or_renamed_def renamed_entries_def)?)

lemma plain_libc_3: "list_all plain_or_renamed libc_map_libc_3"
  unfolding libc_map_libc_3_def
  by (simp, (simp add: plain_or_renamed_def renamed_entries_def)?)

lemma plain_libc_4: "list_all plain_or_renamed libc_map_libc_4"
  unfolding libc_map_libc_4_def
  by (simp, (simp add: plain_or_renamed_def renamed_entries_def)?)

lemma plain_libc_5: "list_all plain_or_renamed libc_map_libc_5"
  unfolding libc_map_libc_5_def
  by (simp, (simp add: plain_or_renamed_def renamed_entries_def)?)

lemma plain_libc_6: "list_all plain_or_renamed libc_map_libc_6"
  unfolding libc_map_libc_6_def
  by (simp, (simp add: plain_or_renamed_def renamed_entries_def)?)

lemma plain_libc_7: "list_all plain_or_renamed libc_map_libc_7"
  unfolding libc_map_libc_7_def
  by (simp, (simp add: plain_or_renamed_def renamed_entries_def)?)

lemma plain_libc_8: "list_all plain_or_renamed libc_map_libc_8"
  unfolding libc_map_libc_8_def
  by (simp, (simp add: plain_or_renamed_def renamed_entries_def)?)

lemmas plain_chunks = plain_dummy plain_original plain_libc_1 plain_libc_2 plain_libc_3 plain_libc_4 plain_libc_5 plain_libc_6 plain_libc_7 plain_libc_8

lemma plain_entries_all: "list_all plain_or_renamed libc_map_entries"
  unfolding libc_map_entries_def using plain_chunks by simp

text \<open>The names bound to the address of a pointer variable instead of its value.\<close>

definition variable_entries :: "(string \<times> string) list" where
  "variable_entries =
    [(''__rawmemchr'', ''rawmemchr_c''), (''modf'', ''modf_c''), (''rindex'', ''rindex_c''),
     (''strcasestr'', ''strcasestr_c''), (''wcspbrk'', ''wcspbrk_c''),
     (''wcsstr'', ''wcsstr_c''), (''wmemchr'', ''wmemchr_c'')]"

definition variable_only :: "string \<times> c_expr \<Rightarrow> bool" where
  "variable_only e = (case map_of variable_entries (fst e) of None \<Rightarrow> True | Some v \<Rightarrow> snd e = AddrOf v)"

lemma variable_dummy: "list_all variable_only libc_map_dummy"
  by (simp add: libc_map_dummy_def own_def variable_only_def variable_entries_def)

lemma variable_original: "list_all variable_only libc_map_original"
  by (simp add: libc_map_original_def own_def variable_only_def variable_entries_def)

lemma variable_libc_1: "list_all variable_only libc_map_libc_1"
  by (simp add: libc_map_libc_1_def own_def variable_only_def variable_entries_def)

lemma variable_libc_2: "list_all variable_only libc_map_libc_2"
  by (simp add: libc_map_libc_2_def own_def variable_only_def variable_entries_def)

lemma variable_libc_3: "list_all variable_only libc_map_libc_3"
  by (simp add: libc_map_libc_3_def own_def variable_only_def variable_entries_def)

lemma variable_libc_4: "list_all variable_only libc_map_libc_4"
  by (simp add: libc_map_libc_4_def own_def variable_only_def variable_entries_def)

lemma variable_libc_5: "list_all variable_only libc_map_libc_5"
  by (simp add: libc_map_libc_5_def own_def variable_only_def variable_entries_def)

lemma variable_libc_6: "list_all variable_only libc_map_libc_6"
  by (simp add: libc_map_libc_6_def own_def variable_only_def variable_entries_def)

lemma variable_libc_7: "list_all variable_only libc_map_libc_7"
  by (simp add: libc_map_libc_7_def own_def variable_only_def variable_entries_def)

lemma variable_libc_8: "list_all variable_only libc_map_libc_8"
  by (simp add: libc_map_libc_8_def own_def variable_only_def variable_entries_def)

lemmas variable_chunks = variable_dummy variable_original variable_libc_1 variable_libc_2 variable_libc_3 variable_libc_4 variable_libc_5 variable_libc_6 variable_libc_7 variable_libc_8

lemma variable_entry:
  assumes "map_of variable_entries name = Some v" and "name \<in> fst ` set libc_map_entries"
  shows "sloader_libc_map link name = Some (link v)"
proof -
  have "list_all variable_only libc_map_entries"
    unfolding libc_map_entries_def using variable_chunks by simp
  moreover from assms(2) obtain e where e: "map_of libc_map_entries name = Some e"
    by (metis map_of_eq_None_iff not_None_eq)
  ultimately have "variable_only (name, e)" by (auto simp: list_all_iff dest: map_of_SomeD)
  with assms(1) have "e = AddrOf v" by (simp add: variable_only_def)
  with e show ?thesis by (simp add: sloader_libc_map_def c_value_def)
qed

section \<open>Properties\<close>


text \<open>
  Every name of the first section of the table is bound to the empty function that
  \<open>DEFINE_DUMMY_FUN\<close> defines for it, except \<open>__cxa_atexit\<close>, which is bound to the
  function that always reports success.
\<close>

lemma dummy_section_defined:
  "list_all (\<lambda>(name, e). e = AddrOf (''sloader_'' @ name) \<and> name \<in> set dummy_functions \<or>
     name = ''__cxa_atexit'' \<and> e = AddrOf ''sloader_atexit_always_success'') libc_map_dummy"
  by (simp add: libc_map_dummy_def dummy_functions_def)

lemma variable_names_present:
  "list_all (\<lambda>name. name \<in> fst ` set libc_map_entries) (map fst variable_entries)"
proof -
  have "(''__rawmemchr'', AddrOf ''rawmemchr_c'') \<in> set libc_map_libc_1"
    by (simp add: libc_map_libc_1_def)
  then have 1: "''__rawmemchr'' \<in> fst ` set libc_map_entries" by (force simp: libc_map_entries_def)
  have "(''modf'', AddrOf ''modf_c'') \<in> set libc_map_libc_4"
    by (simp add: libc_map_libc_4_def)
  then have 2: "''modf'' \<in> fst ` set libc_map_entries" by (force simp: libc_map_entries_def)
  have "(''rindex'', AddrOf ''rindex_c'') \<in> set libc_map_libc_6"
    by (simp add: libc_map_libc_6_def)
  then have 3: "''rindex'' \<in> fst ` set libc_map_entries" by (force simp: libc_map_entries_def)
  have "(''strcasestr'', AddrOf ''strcasestr_c'') \<in> set libc_map_libc_7"
    by (simp add: libc_map_libc_7_def)
  then have 4: "''strcasestr'' \<in> fst ` set libc_map_entries" by (force simp: libc_map_entries_def)
  have "(''wcspbrk'', AddrOf ''wcspbrk_c'') \<in> set libc_map_libc_8"
    by (simp add: libc_map_libc_8_def)
  then have 5: "''wcspbrk'' \<in> fst ` set libc_map_entries" by (force simp: libc_map_entries_def)
  have "(''wcsstr'', AddrOf ''wcsstr_c'') \<in> set libc_map_libc_8"
    by (simp add: libc_map_libc_8_def)
  then have 6: "''wcsstr'' \<in> fst ` set libc_map_entries" by (force simp: libc_map_entries_def)
  have "(''wmemchr'', AddrOf ''wmemchr_c'') \<in> set libc_map_libc_8"
    by (simp add: libc_map_libc_8_def)
  then have 7: "''wmemchr'' \<in> fst ` set libc_map_entries" by (force simp: libc_map_entries_def)
  from 1 2 3 4 5 6 7 show ?thesis
    by (simp only: variable_entries_def list.map fst_conv list_all_iff list.set ball_simps)
qed

text \<open>
  Seven names are bound to data. \<open>__rawmemchr\<close>, \<open>modf\<close>, \<open>rindex\<close>,
  \<open>strcasestr\<close>, \<open>wcspbrk\<close>, \<open>wcsstr\<close> and \<open>wmemchr\<close> get the address of
  the pointer variable that holds the function's address, so a program that calls one of them
  jumps into the loader's data.
\<close>

lemma libc_map_binds_variables:
  "map (sloader_libc_map link) (map fst variable_entries) = map (Some \<circ> link \<circ> snd) variable_entries \<and>
   set (map snd variable_entries) \<subseteq> set (map fst pointer_variables)"
proof
  have "sloader_libc_map link (fst e) = Some (link (snd e))" if e: "e \<in> set variable_entries" for e
  proof (rule variable_entry)
    have "distinct (map fst variable_entries)" by (simp add: variable_entries_def)
    with e show "map_of variable_entries (fst e) = Some (snd e)" by simp
    show "fst e \<in> fst ` set libc_map_entries"
      using variable_names_present e by (auto simp: list_all_iff)
  qed
  then show "map (sloader_libc_map link) (map fst variable_entries) =
      map (Some \<circ> link \<circ> snd) variable_entries" by simp
  show "set (map snd variable_entries) \<subseteq> set (map fst pointer_variables)"
    by (simp add: variable_entries_def pointer_variables_def)
qed

lemma memchr_first:
  "(\<And>k. k < i \<Longrightarrow> \<exists>b. m (s + of_nat k) = Some b \<and> b \<noteq> c) \<Longrightarrow> m (s + of_nat i) = Some c \<Longrightarrow>
    i < n \<Longrightarrow> memchr m s c n = Inr (s + of_nat i)"
proof (induction n arbitrary: s i)
  case 0
  then show ?case by simp
next
  case (Suc n)
  show ?case
  proof (cases i)
    case 0
    with Suc.prems(2) show ?thesis by simp
  next
    case (Suc i')
    from Suc.prems(1) [of 0] Suc obtain b where b: "m s = Some b" "b \<noteq> c" by auto
    have "\<exists>b. m (s + 1 + of_nat k) = Some b \<and> b \<noteq> c" if "k < i'" for k
      using Suc.prems(1) [of "Suc k"] that Suc by (simp add: add.assoc)
    with Suc.IH [of i' "s + 1"] Suc.prems(2,3) Suc b show ?thesis by (simp add: add.assoc)
  qed
qed

text \<open>
  \<open>memrchr\<close> finds the first byte, not the last. The replacement calls
  \<open>memchr\<close>; whenever the byte occurs more than once, the address it returns is not that of
  the last occurrence.
\<close>

lemma memrchr_c_finds_first:
  assumes "\<forall>k < i. \<exists>b. m (s + of_nat k) = Some b \<and> b \<noteq> c" and "m (s + of_nat i) = Some c"
    and "i < j" and "j < unat n" and "m (s + of_nat j) = Some c"
  shows "memrchr_c m s c n = Inr (s + of_nat i) \<and> s + of_nat i \<noteq> s + of_nat j"
proof -
  have "unat (of_nat i :: u64) = i" "unat (of_nat j :: u64) = j"
    using assms(3,4) unat_u64_less [of n] by (simp_all add: unat_of_nat_u64)
  with assms(3) have "(of_nat i :: u64) \<noteq> of_nat j" by (metis less_irrefl)
  with memchr_first [of i m s c "unat n"] assms show ?thesis by (simp add: memrchr_c_def)
qed


end
