(* ===== verification/Sloader.thy ===== *)
theory Sloader
  imports Execute Sloader_Dl Libc_Mapping
begin

text \<open>
  \<open>sloader.cc\<close>: finding the program along \<open>PATH\<close>, its ELF type, and the start of the
  loader; with \<open>InitializeDynLoader\<close> of \<open>dyn_loader.cc\<close>.
\<close>

section \<open>The model\<close>

definition GetEType :: "os \<Rightarrow> path \<Rightarrow> proc \<Rightarrow> (u16 \<times> proc) res" where
  "GetEType os filepath P =
     (case open_file os filepath P of
        None \<Rightarrow> Inl (ExitWith 1)
      | Some (content, P) \<Rightarrow>
          (let size = of_nat (length content) :: u64
           in rbind (CHECK (size > 8 + 16)) (\<lambda>_.
              let mapped_size = page_ceil size;
                  (p, P) = mmap_file os content mapped_size
                             (PROT_READ OR PROT_WRITE OR PROT_EXEC) P
              in rbind (CHECK (p \<noteq> MAP_FAILED)) (\<lambda>_.
                 rbind (read_bytes (mem P) (p + 16) 2) (\<lambda>bs.
                 Inr (of_nat (le_nat bs), P))))))"

definition InitializeDynLoader ::
  "libc \<Rightarrow> path \<Rightarrow> string list \<Rightarrow> string list \<Rightarrow> global \<Rightarrow> global res" where
  "InitializeDynLoader lc path_arg envs_arg args_arg g =
     rbind (CHECK (fst g = None)) (\<lambda>_.
     rbind (write_sloader_dummy_to_secure_tls_space (tls_block lc) (mem (snd g))) (\<lambda>m.
     let (L, P) = DynLoader_ctor path_arg args_arg envs_arg ((snd g)\<lparr>mem := m\<rparr>)
     in Inr (Some L, P)))"

text \<open>
  A \<open>std::string\<close> built from a null pointer throws. \<open>SplitWith\<close> returns for every
  non-empty delimiter, so its branch without a result is never taken.
\<close>

definition in_dir :: "os \<Rightarrow> string \<Rightarrow> path \<Rightarrow> bool" where
  "in_dir os argv0 dir =
     (os_exists os (path_append dir argv0) \<and> os_is_regular_file os (path_append dir argv0))"

definition program_path :: "os \<Rightarrow> string \<Rightarrow> path res" where
  "program_path os argv0 =
     (if (argv0 \<noteq> [] \<and> hd argv0 = CHR ''.'') \<or> contains argv0 ''/'' then Inr argv0
      else case os_getenv os ''PATH'' of
        None \<Rightarrow> Inl Uncaught
      | Some dirs \<Rightarrow>
          (case SplitWith dirs '':'' of
             None \<Rightarrow> Inl Indeterminate
           | Some path_dirs \<Rightarrow>
               Inr (case find (in_dir os argv0) path_dirs of
                      None \<Rightarrow> [] | Some dir \<Rightarrow> path_append dir argv0)))"

text \<open>
  \<open>main\<close> up to the jump into the program; \<open>rsp\<close> is the stack pointer where
  \<open>ExecuteCore\<close> starts to push.
\<close>

definition sloader_main ::
  "os \<Rightarrow> libc \<Rightarrow> foreign \<Rightarrow> (string list \<Rightarrow> u64 list) \<Rightarrow> addr \<Rightarrow> string list \<Rightarrow> string list \<Rightarrow> proc \<Rightarrow>
   (machine \<times> addr \<times> addr) res" where
  "sloader_main os lc call c_strs rsp argv envp P =
     (case argv of
        prog # argv0 # rest \<Rightarrow>
          rbind (program_path os argv0) (\<lambda>fullpath.
          rbind (CHECK (os_exists os fullpath)) (\<lambda>_.
          rbind (GetEType os fullpath P) (\<lambda>(etype, P).
            if etype = ET_DYN \<or> etype = ET_EXEC then
              rbind (InitializeDynLoader lc fullpath envp (argv0 # rest) (None, P)) (\<lambda>g.
              rbind (GetDynLoader g) (\<lambda>L.
              Run os lc call c_strs rsp \<lparr>loader = L, process = snd g,
                tls_offset = sloader_tls_offset, called = []\<rparr>))
            else Inl Aborted)))
      | _ \<Rightarrow> Inl Uncaught)"

section \<open>Properties\<close>

text \<open>
  C35: the last directory of \<open>PATH\<close> is never searched. A program name without a separator
  is looked up in the directories before the last colon only, so a program that lies in the
  last one is not found and the loader exits with status 1.
\<close>

theorem last_PATH_directory_ignored:
  assumes "argv0 \<noteq> []" and "hd argv0 \<noteq> CHR ''.''" and "\<not> contains argv0 ''/''"
    and "os_getenv os ''PATH'' = Some (concat (map (\<lambda>d. d @ '':'') dirs) @ last_dir)"
    and "\<forall>d \<in> set (last_dir # dirs). CHR '':'' \<notin> set d"
    and "\<forall>d \<in> set dirs. \<not> in_dir os argv0 d" and "\<not> os_exists os []"
  shows "program_path os argv0 = Inr [] \<and>
    sloader_main os lc call c_strs rsp (prog # argv0 # rest) envp P = Inl (ExitWith 1)"
proof -
  have s: "SplitWith (concat (map (\<lambda>d. d @ '':'') dirs) @ last_dir) '':'' = Some dirs"
    using SplitWith_loop_pieces [of dirs "CHR '':''" last_dir "[]"] assms(5)
    by (simp add: SplitWith_def)
  have "find (in_dir os argv0) dirs = None" using assms(6) by (simp add: find_None_iff)
  with assms s have "program_path os argv0 = Inr []" by (simp add: program_path_def)
  with assms(7) show ?thesis by (simp add: sloader_main_def CHECK_def)
qed

text \<open>
  The loader starts executables and shared objects only. Once the file is found and its
  header read, any other \<open>e_type\<close> aborts before anything is loaded, and a file that is too
  short for a header or cannot be opened leaves with status 1.
\<close>

lemma main_rejects:
  assumes "program_path os argv0 = Inr fullpath" and "os_exists os fullpath"
  shows "(os_file os fullpath = None \<or> fds P = 0 \<or> (\<exists>c. os_file os fullpath = Some c \<and> length c \<le> 24) \<longrightarrow>
      sloader_main os lc call c_strs rsp (prog # argv0 # rest) envp P = Inl (ExitWith 1)) \<and>
    (\<forall>t P'. GetEType os fullpath P = Inr (t, P') \<and> t \<notin> {ET_DYN, ET_EXEC} \<longrightarrow>
      sloader_main os lc call c_strs rsp (prog # argv0 # rest) envp P = Inl Aborted)"
proof -
  have short: "GetEType os fullpath P = Inl (ExitWith 1)"
    if "os_file os fullpath = None \<or> fds P = 0 \<or> (\<exists>c. os_file os fullpath = Some c \<and> length c \<le> 24)"
  proof -
    have "\<not> (of_nat (length c) :: u64) > 24" if "length c \<le> 24" for c :: "byte list"
      using that by (simp add: word_less_nat_alt unat_of_nat_u64)
    with that show ?thesis
      by (auto simp: GetEType_def open_file_def rbind_CHECK split: option.splits)
  qed
  with assms show ?thesis by (auto simp: sloader_main_def CHECK_def)
qed

section \<open>The properties on samples\<close>

definition path_host :: os where
  "path_host = (host_with [(''/bin/ls'', exec_file)])
     \<lparr>os_getenv := [''PATH'' \<mapsto> ''/usr/bin:/bin'']\<rparr>"

theorem last_PATH_directory_ignored_witness:
  "in_dir path_host ''ls'' ''/bin'' \<and> os_getenv path_host ''PATH'' = Some ''/usr/bin:/bin'' \<and>
   sloader_main path_host no_libc quiet_call (\<lambda>_. []) 0 [''sloader'', ''ls''] [] (empty_proc 5) =
     Inl (ExitWith 1)"
proof -
  have p: "os_getenv path_host ''PATH'' = Some (concat (map (\<lambda>d. d @ '':'') [''/usr/bin'']) @ ''/bin'')"
    by (simp add: path_host_def)
  have d: "\<forall>d \<in> set (''/bin'' # [''/usr/bin'']). CHR '':'' \<notin> set d" by simp
  have n: "\<forall>d \<in> set [''/usr/bin'']. \<not> in_dir path_host ''ls'' d"
    by (simp add: in_dir_def path_host_def host_with_def path_append_def is_absolute_def
        slash_def filename_def)
  have i: "in_dir path_host ''ls'' ''/bin''"
    by (simp add: in_dir_def path_host_def host_with_def path_append_def is_absolute_def
        slash_def filename_def)
  have e: "\<not> os_exists path_host []" by (simp add: path_host_def host_with_def)
  have c: "\<not> contains ''ls'' ''/''" by (simp add: contains_def)
  show ?thesis
    using last_PATH_directory_ignored [OF _ _ c p d n e, of no_libc quiet_call "\<lambda>_. []" 0
        "''sloader''" "[]" "[]" "empty_proc 5"] i p by simp
qed

end
