(* ===== verification/Relocate_Returns.thy ===== *)
theory Relocate_Returns
  imports Relocate
begin

text \<open>
  When \<open>DynLoader::Relocate\<close> returns: conditions on the loaded files and on memory before
  the call under which no relocation aborts, leaves the process or touches unmapped memory.
\<close>

section \<open>One relocation\<close>

lemma symbol_addr_total:
  assumes "names_readable m L"
  shows "\<exists>r. symbol_addr lc m L name = Inr r"
proof -
  obtain opt where s: "SearchSym m L name False = Inr opt"
    using SearchSym_total assms unfolding names_readable_def by blast
  from GetSymbolAddr_match SearchSym_resolves [OF s] s show ?thesis
    by (cases "libc_map lc name"; cases opt) (auto simp: symbol_addr_def)
qed

text \<open>
  A relocation that can be carried out: its symbol exists, its type is supported, its target is
  mapped; a thread-local symbol has an offset, and the source of a copy is known and mapped, with
  the eight bytes the log line reads.
\<close>

definition work_ok :: "libc \<Rightarrow> memory \<Rightarrow> DynLoader \<Rightarrow> work \<Rightarrow> bool" where
  "work_ok lc m L w \<longleftrightarrow>
     (let (b, r) = w; s = symtabs b ! unat (ELF64_R_SYM (r_info r)); type = ELF64_R_TYPE (r_info r)
      in b \<in> set (binaries L) \<and> sym_in_range w \<and> type \<in> set supported_types \<and>
         (if type = R_X86_64_COPY then
            (\<exists>src n. rbind (sym_name m b s) (copy_source lc m L) = Inr (src, n) \<and>
               mapped m src 8 \<and> mapped m src (unat n) \<and> mapped m (slot b r) (unat n))
          else mapped m (slot b r) 8 \<and>
            (type = R_X86_64_TPOFF64 \<longrightarrow> (\<exists>off. rbind (sym_name m b s) (TLSSymOffset lc m L) = Inr off))))"

lemma work_ok_returns:
  assumes "names_readable m L" and "work_ok lc m L w"
  shows "\<exists>m'. apply_work lc L m w = Inr m'"
proof -
  obtain b r where w: "w = (b, r)" by fastforce
  let ?s = "symtabs b ! unat (ELF64_R_SYM (r_info r))" and ?type = "ELF64_R_TYPE (r_info r)"
  from assms(2) w have ok: "b \<in> set (binaries L)" "unat (ELF64_R_SYM (r_info r)) < length (symtabs b)"
    "?type \<in> set supported_types" by (auto simp: work_ok_def Let_def sym_in_range_def)
  have "?s \<in> set (symtabs b)" using ok(2) by simp
  with assms(1) ok(1) obtain name where n: "sym_name m b ?s = Inr name"
    unfolding names_readable_def by blast
  obtain opt where o: "symbol_addr lc m L name = Inr opt" using symbol_addr_total [OF assms(1)] by blast
  note parts = apply_work_def relocate_one_def Let_def w n o ok(2) rbind_CHECK
  show ?thesis
  proof (cases "?type = R_X86_64_COPY")
    case True
    with assms(2) w n obtain src k where c: "copy_source lc m L name = Inr (src, k)"
      "mapped m src 8" "mapped m src (unat k)" "mapped m (slot b r) (unat k)"
      by (auto simp: work_ok_def Let_def)
    from read_u64_ok [OF c(2)] memcpy_ok [OF c(4,3)] c(1) True show ?thesis by (auto simp: parts)
  next
    case False
    with assms(2) w have t: "mapped m (slot b r) 8" by (simp add: work_ok_def Let_def)
    obtain v where v: "read_u64 m (slot b r) = Inr v" using read_u64_ok [OF t] by blast
    have wr: "\<exists>m'. write_u64 m (slot b r) u = Inr m'" for u by (rule write_u64_ok [OF t])
    show ?thesis
    proof (cases "?type = R_X86_64_TPOFF64")
      case True
      with assms(2) w n obtain off where "TLSSymOffset lc m L name = Inr off"
        by (auto simp: work_ok_def Let_def)
      with True wr show ?thesis by (simp add: parts)
    next
      case f: False
      have "?type \<in> set [R_X86_64_GLOB_DAT, R_X86_64_JUMP_SLOT, R_X86_64_IRELATIVE,
          R_X86_64_RELATIVE, R_X86_64_64, R_X86_64_DTPMOD64, R_X86_64_DTPOFF64]"
        using ok(3) False f by (simp add: supported_types_def)
      with wr v show ?thesis by (cases opt) (auto simp: parts)
    qed
  qed
qed

section \<open>All of them\<close>

lemma work_ok_cong:
  assumes "names_readable m L" and "\<And>x. x \<in> name_bytes m L \<Longrightarrow> m' x = m x"
    and "\<And>x. m' x = None \<longleftrightarrow> m x = None" and "work_ok lc m L w"
  shows "work_ok lc m' L w"
proof -
  obtain b r where w: "w = (b, r)" by fastforce
  let ?s = "symtabs b ! unat (ELF64_R_SYM (r_info r))"
  from assms(4) w have "b \<in> set (binaries L)" "?s \<in> set (symtabs b)"
    by (auto simp: work_ok_def Let_def sym_in_range_def)
  from sym_name_cong [OF assms(1,2) this] have n: "sym_name m' b ?s = sym_name m b ?s" .
  have f: "copy_source lc m' L = copy_source lc m L" "TLSSymOffset lc m' L = TLSSymOffset lc m L"
    by (intro ext lookups_cong [OF assms(1,2)]; assumption)+
  have "work_ok lc m' L w = work_ok lc m L w"
    by (simp only: work_ok_def w split Let_def n f mapped_cong [OF assms(3)])
  with assms(4) show ?thesis by simp
qed

lemma works_return:
  "spares_names lc m L W \<Longrightarrow> \<forall>w \<in> set W. work_ok lc m L w \<Longrightarrow> \<exists>m'. foldR (apply_work lc L) m W = Inr m'"
proof (induction W arbitrary: m)
  case Nil
  then show ?case by simp
next
  case (Cons w W)
  have nr: "names_readable m L" using Cons.prems(1) by (simp add: spares_names_def)
  obtain m1 where one: "apply_work lc L m w = Inr m1"
    using work_ok_returns [OF nr, of lc w] Cons.prems(2) by auto
  have r: "\<forall>v \<in> set W. sym_in_range v"
    using Cons.prems(2) by (auto simp: work_ok_def Let_def)
  note nm = apply_work_names [OF one Cons.prems(1) r]
  have "m1 x = None \<longleftrightarrow> m x = None" for x
    using one unfolding apply_work_def by (rule relocate_one_mapped)
  then have "\<forall>v \<in> set W. work_ok lc m1 L v"
    using work_ok_cong [OF nr nm(3)] Cons.prems(2) by simp
  from Cons.IH [OF nm(1) this] one show ?case by simp
qed

section \<open>Property\<close>

text \<open>
  C20: \<open>Relocate\<close> returns. If every relocation of its work list names a symbol its file has,
  is of one of the nine supported types, and has its target (and, for a copy, its source) mapped,
  if thread-local symbols are defined somewhere, and if the names of all symbols are readable and
  not written over, then no relocation aborts, exits or faults.
\<close>

theorem Relocate_returns:
  assumes "spares_names lc (mem P) L (worklist (relocated L) (binaries L))"
    and "\<forall>w \<in> set (worklist (relocated L) (binaries L)). work_ok lc (mem P) L w"
  shows "\<exists>L' P'. Relocate lc (L, P) = Inr (L', P')"
  using works_return [OF assms] by (auto simp: Relocate_is_worklist)

theorem Relocate_returns_witness:
  "\<exists>L' P'. Relocate no_libc (plt_loader, plt_proc) = Inr (L', P')"
proof (rule Relocate_returns [OF plt_spares])
  let ?a = "(f_bin ''/a'' 0x1400000 0)\<lparr>pltrelas := [f_rela]\<rparr>"
  have a: "?a \<in> set (binaries plt_loader)" by (simp add: plt_loader_def)
  have "mapped (mem plt_proc) 0x1400010 8"
    by (auto simp: mapped_def plt_proc_def map_at_def unat_of_nat_u64)
  moreover have "slot ?a f_rela = 0x1400010" "length (symtabs ?a) = 1"
    by (simp_all add: f_bin_def f_rela_def)
  ultimately have "work_ok no_libc (mem plt_proc) plt_loader (?a, f_rela)"
    using a by (simp add: work_ok_def sym_in_range_def plt_types supported_types_def)
  then show "\<forall>w \<in> set (worklist (relocated plt_loader) (binaries plt_loader)).
      work_ok no_libc (mem plt_proc) plt_loader w"
    by (simp add: plt_worklist)
qed

end
