(* ===== verification/Start_Returns.thy ===== *)
theory Start_Returns
  imports Sloader Relocate_Returns
begin

text \<open>
  When the loader reaches the program: conditions on the loaded files and on memory under which,
  once the dependency graph is mapped, neither relocation, nor the constructors, nor the set-up
  of thread-local storage and stack stops the start.
\<close>

section \<open>Constructors\<close>

text \<open>Two memories with the same mapped addresses.\<close>

abbreviation same_map :: "memory \<Rightarrow> memory \<Rightarrow> bool" where
  "same_map m m' \<equiv> \<forall>x. m' x = None \<longleftrightarrow> m x = None"

text \<open>Constructors that return, map and unmap nothing and open no libraries.\<close>

definition tame_call :: "foreign \<Rightarrow> bool" where
  "tame_call call \<longleftrightarrow> (\<forall>f L P. \<exists>P'. call f (L, P) = Inr (L, P') \<and> same_map (mem P) (mem P'))"

definition array_ready :: "memory \<Rightarrow> ELFBinary \<Rightarrow> bool" where
  "array_ready m b \<longleftrightarrow> 8 dvd unat (init_arraysz b) \<and>
     mapped m (init_array b + base_addr b) (unat (init_arraysz b))"

text \<open>What a constructor leaves alone.\<close>

definition same_start :: "machine \<Rightarrow> machine \<Rightarrow> bool" where
  "same_start s s' \<longleftrightarrow> loader s' = loader s \<and> tls_offset s' = tls_offset s \<and>
     same_map (mem (process s)) (mem (process s'))"

lemma same_start_refl [simp]: "same_start s s"
  by (simp add: same_start_def)

lemma same_start_trans: "same_start s s1 \<Longrightarrow> same_start s1 s2 \<Longrightarrow> same_start s s2"
  by (simp add: same_start_def)

lemma same_start_mapped:
  "same_start s s' \<Longrightarrow> mapped (mem (process s')) a n = mapped (mem (process s)) a n"
  by (rule mapped_cong) (simp add: same_start_def)

lemma same_start_ready:
  "same_start s s' \<Longrightarrow> array_ready (mem (process s')) b = array_ready (mem (process s)) b"
  by (simp add: array_ready_def same_start_mapped [of s s'])

lemma call_init_returns:
  assumes "tame_call call"
  shows "\<exists>s'. call_init call f s = Inr s' \<and> same_start s s'"
proof -
  from assms obtain P' where "call f (loader s, process s) = Inr (loader s, P')"
    "same_map (mem (process s)) (mem P')" unfolding tame_call_def by blast
  then show ?thesis by (simp add: call_init_def same_start_def)
qed

lemma mapped_word:
  assumes "mapped m a (8 * n)" and "j < n"
  shows "mapped m (a + 8 * of_nat j) 8"
  unfolding mapped_def
proof (intro allI impI)
  fix i :: nat assume "i < 8"
  with assms have "m (a + of_nat (8 * j + i)) \<noteq> None" unfolding mapped_def by (simp del: of_nat_add)
  then show "m (a + 8 * of_nat j + of_nat i) \<noteq> None" by (simp add: add.assoc)
qed

lemma init_array_returns:
  assumes "tame_call call"
  shows "\<forall>j \<in> set js. mapped (mem (process s)) (init_array b + base_addr b + 8 * of_nat j) 8 \<Longrightarrow>
    \<exists>s'. init_array_loop call b js s = Inr s' \<and> same_start s s'"
proof (induction js arbitrary: s)
  case Nil
  then show ?case by simp
next
  case (Cons j js)
  then obtain f where f: "read_u64 (mem (process s)) (init_array b + base_addr b + 8 * of_nat j) = Inr f"
    using read_u64_ok by fastforce
  obtain s1 where s1: "call_init call f s = Inr s1" "same_start s s1"
    using call_init_returns [OF assms] by blast
  then have "\<forall>j \<in> set js. mapped (mem (process s1)) (init_array b + base_addr b + 8 * of_nat j) 8"
    using Cons.prems same_start_mapped [OF s1(2)] by simp
  from Cons.IH [OF this] f s1 show ?case by (auto intro: same_start_trans)
qed

lemma init_binary_returns:
  assumes "tame_call call" and "i < length (binaries (loader s))"
    and "list_all (array_ready (mem (process s))) (binaries (loader s))"
  shows "\<exists>s'. init_binary call s i = Inr s' \<and> same_start s s'"
proof -
  let ?b = "binaries (loader s) ! i"
  obtain s1 where s1: "(if init ?b \<noteq> 0 then call_init call (init ?b + base_addr ?b) s else Inr s) = Inr s1"
    "same_start s s1" using call_init_returns [OF assms(1)] by (cases "init ?b = 0") auto
  have "array_ready (mem (process s)) ?b" using assms(2,3) by (simp add: list_all_length)
  then have r: "array_ready (mem (process s1)) ?b" using same_start_ready [OF s1(2)] by simp
  have d: "unat (init_arraysz ?b div 8) = unat (init_arraysz ?b) div 8" by (simp add: unat_div)
  have "mapped (mem (process s1)) (init_array ?b + base_addr ?b + 8 * of_nat j) 8"
    if "j < unat (init_arraysz ?b div 8)" for j
    using r that unfolding array_ready_def d by (intro mapped_word) auto
  then obtain s2 where s2: "init_array_loop call ?b [0..<unat (init_arraysz ?b div 8)] s1 = Inr s2"
    "same_start s1 s2" using init_array_returns [OF assms(1), of "[0..<unat (init_arraysz ?b div 8)]" s1 ?b] by auto
  have "init_arraysz ?b mod 8 = 0"
    using r by (simp add: array_ready_def unat_mod unat_eq_0 [symmetric] dvd_eq_mod_eq_0)
  with s1 s2 show ?thesis
    by (auto simp: init_binary_def Let_def CHECK_def intro: same_start_trans)
qed

lemma init_all_returns:
  assumes "tame_call call" and "list_all (array_ready (mem (process s))) (binaries (loader s))"
  shows "\<exists>s'. init_all call s = Inr s' \<and> same_start s s'"
proof -
  have "\<exists>s'. foldR (init_binary call) s is = Inr s' \<and> same_start s s'"
    if "set is \<subseteq> {0..<length (binaries (loader s))}"
      "list_all (array_ready (mem (process s))) (binaries (loader s))" for "is" s
    using that
  proof (induction "is" arbitrary: s)
    case Nil
    then show ?case by simp
  next
    case (Cons i "is")
    then obtain s1 where s1: "init_binary call s i = Inr s1" "same_start s s1"
      using init_binary_returns [OF assms(1), of i s] by auto
    then have "list_all (array_ready (mem (process s1))) (binaries (loader s1))"
      using Cons.prems(2) same_start_ready [OF s1(2)] by (simp add: list_all_iff same_start_def)
    with Cons.IH [of s1] Cons.prems(1) s1 show ?case
      by (auto simp: same_start_def)
  qed
  from this [of "rev [0..<length (binaries (loader s))]"] assms(2) show ?thesis by (simp add: init_all_def)
qed

section \<open>Execute\<close>

text \<open>
  Room for the thread-local storage of all files, with their images, and room for \<open>n\<close> words
  below the stack pointer.
\<close>

definition tls_fits :: "addr \<Rightarrow> memory \<Rightarrow> ELFBinary list \<Rightarrow> bool" where
  "tls_fits T m bs \<longleftrightarrow> list_all tls_sane bs \<and> tls_sum bs \<le> 4096 \<and> unat T + 4104 \<le> 2 ^ 64 \<and>
     tls_ready T sloader_tls_offset m bs"

definition stack_room :: "memory \<Rightarrow> addr \<Rightarrow> nat \<Rightarrow> bool" where
  "stack_room m rsp n \<longleftrightarrow> 8 * n \<le> 2 ^ 64 \<and> (\<forall>i < 8 * n. m (rsp - 1 - of_nat i) \<noteq> None)"

lemma room_cong:
  assumes "same_map m m'"
  shows "tls_fits T m' bs = tls_fits T m bs" "stack_room m' rsp n = stack_room m rsp n"
    "array_ready m' b = array_ready m b"
  using assms mapped_cong [of m' m] by (simp_all add: tls_fits_def tls_ready_def stack_room_def array_ready_def)

lemma init_tls_returns:
  assumes "tls_fits T m bs"
  shows "\<exists>m' off'. init_tls T bs (m, sloader_tls_offset) = Inr (m', off') \<and> same_map m m'"
proof -
  from assms have sane: "list_all tls_sane bs" and r: "tls_sum bs \<le> 4096" "tls_ready T sloader_tls_offset m bs"
    and top: "tls_sum bs \<le> unat sloader_tls_offset" "unat T + unat sloader_tls_offset + 8 \<le> 2 ^ 64"
    by (simp_all add: tls_fits_def sloader_tls_offset_def)
  from tls_loop_total [OF sane top r(2)] obtain m' off' where
    l: "foldR (init_tls_one T) (m, sloader_tls_offset) bs = Inr (m', off')" by auto
  have "(of_nat (tls_sum bs) :: u64) \<le> 4096"
    using r(1) by (simp add: word_le_nat_alt unat_of_nat_u64)
  with l have "init_tls T bs (m, sloader_tls_offset) = Inr (m', off')"
    by (simp add: init_tls_def tls_size_sum [OF sane] CHECK_def)
  moreover have "m' x = None \<longleftrightarrow> m x = None" for x
    using tls_map_loop.loop_inv [OF _ l, of x "m x = None"] by simp
  ultimately show ?thesis by blast
qed

lemma Execute_returns:
  assumes "tame_call call" and "list_all (array_ready (mem (process s))) (binaries (loader s))"
    and "tls_offset s = sloader_tls_offset" and "tls_fits T (mem (process s)) (binaries (loader s))"
    and "os_getauxval os AT_RANDOM \<noteq> 0" and "strings_placed c_strs"
    and "stack_room (mem (process s)) rsp (9 + 2 * length (aux_tvs os) + length envp + length argv)"
  shows "\<exists>s' rsp'. Execute os call T c_strs argv envp rsp s =
      Inr (s', rsp', e_entry (ehdr (binaries (loader s) ! 0)) + base_addr (binaries (loader s) ! 0)) \<and>
    loader s' = loader s"
proof -
  let ?st = "stack_words (aux_tvs os) (c_strs envp) (c_strs argv)"
  let ?entry = "e_entry (ehdr (binaries (loader s) ! 0)) + base_addr (binaries (loader s) ! 0)"
  obtain s1 where i: "init_all call s = Inr s1" and same: "same_start s s1"
    using init_all_returns [OF assms(1,2)] by blast
  have m1: "same_map (mem (process s)) (mem (process s1))" "loader s1 = loader s"
    "tls_offset s1 = sloader_tls_offset" using same assms(3) by (simp_all add: same_start_def)
  obtain m off where t: "init_tls T (binaries (loader s)) (mem (process s1), sloader_tls_offset) = Inr (m, off)"
    and m: "same_map (mem (process s1)) m"
    using init_tls_returns assms(4) room_cong(1) [OF m1(1)] by blast
  have c: "length (c_strs ss) = length ss" for ss using assms(6) by (simp add: strings_placed_def)
  have len: "length ?st = 9 + 2 * length (aux_tvs os) + length envp + length argv"
    by (simp add: stack_words_def aux_words_length c)
  have "stack_room m rsp (length ?st)"
    using assms(7) room_cong(2) [OF m1(1)] room_cong(2) [OF m] by (simp add: len)
  then obtain m' rsp' where "ExecuteCore ?st ?entry (m, rsp) = Inr (m', rsp', ?entry)"
    using ExecuteCore_pushes [of ?st m rsp ?entry] by (auto simp: stack_room_def)
  then show ?thesis
    using i t m1 assms(5) by (simp add: Execute_def Let_def build_stack_words CHECK_def c)
qed

section \<open>Run\<close>

text \<open>The relocations still to do can be carried out.\<close>

definition relocatable :: "libc \<Rightarrow> memory \<Rightarrow> DynLoader \<Rightarrow> bool" where
  "relocatable lc m L \<longleftrightarrow>
     (let W = worklist (relocated L) (binaries L)
      in spares_names lc m L W \<and> (\<forall>w \<in> set W. work_ok lc m L w))"

lemma relocatable_returns: "relocatable lc (mem P) L \<Longrightarrow> \<exists>L' P'. Relocate lc (L, P) = Inr (L', P')"
  using works_return [of lc "mem P" L "worklist (relocated L) (binaries L)"]
  by (auto simp: Relocate_is_worklist relocatable_def Let_def)

text \<open>
  Everything that has to hold of the loaded files \<open>L\<close> in memory \<open>m\<close>: relocations, arrays
  of constructors, thread-local storage, and \<open>n\<close> words of stack.
\<close>

definition startable :: "libc \<Rightarrow> addr \<Rightarrow> nat \<Rightarrow> memory \<Rightarrow> DynLoader \<Rightarrow> bool" where
  "startable lc rsp n m L \<longleftrightarrow> relocatable lc m L \<and> list_all (array_ready m) (binaries L) \<and>
     tls_fits (tls_block lc) m (binaries L) \<and> stack_room m rsp n"

abbreviation start_words :: "os \<Rightarrow> string list \<Rightarrow> string list \<Rightarrow> nat" where
  "start_words os argv envp \<equiv> 9 + 2 * length (aux_tvs os) + length envp + length argv"

lemma Run_returns:
  assumes "LoadDependingLibs os (main_path (loader s)) (loader s, process s) = Inr (L, P)"
    and "startable lc rsp (start_words os (args (loader s)) (envs (loader s))) (mem P) L"
    and "tls_offset s = sloader_tls_offset" and "tame_call call"
    and "os_getauxval os AT_RANDOM \<noteq> 0" and "strings_placed c_strs"
  shows "\<exists>s' rsp'. Run os lc call c_strs rsp s =
      Inr (s', rsp', e_entry (ehdr (binaries L ! 0)) + base_addr (binaries L ! 0)) \<and>
    binaries (loader s') = binaries L"
proof -
  from assms(2) relocatable_returns [of lc P L] obtain L' P' where
    rel: "Relocate lc (L, P) = Inr (L', P')" by (auto simp: startable_def)
  have f: "args L' = args (loader s)" "envs L' = envs (loader s)" "binaries L' = binaries L"
    using Relocate_fields [OF rel] load_params.libs_rel [OF assms(1)] by simp_all
  let ?s = "s\<lparr>loader := L', process := P'\<rparr>"
  have "same_map (mem P) (mem P')" using Relocate_wf(2) [OF rel] by simp
  note room_cong [OF this]
  with assms(2-6) f obtain s' rsp' where
    "Execute os call (tls_block lc) c_strs (args L') (envs L') rsp ?s =
      Inr (s', rsp', e_entry (ehdr (binaries L ! 0)) + base_addr (binaries L ! 0))" "loader s' = L'"
    using Execute_returns [of call ?s "tls_block lc" os c_strs rsp "envs L'" "args L'"]
    by (auto simp: list_all_iff startable_def)
  with assms(1) rel f(3) show ?thesis by (auto simp: Run_def)
qed

end
