(* ===== verification/Images.thy ===== *)
theory Images
  imports Load_Order
begin

text \<open>
  What is in memory after the whole dependency graph is loaded: mappings never overlap, so the
  image of a file survives the loading of every later one.
\<close>

section \<open>One file\<close>

definition image_of :: "byte list \<Rightarrow> memory \<Rightarrow> ELFBinary \<Rightarrow> bool" where
  "image_of content m b \<longleftrightarrow> (\<forall>ph \<in> set (file_phdrs b). p_type ph = PT_LOAD \<longrightarrow>
     unat (p_offset ph) + unat (p_filesz ph) \<le> length content \<longrightarrow>
     (\<forall>i < unat (p_memsz ph). m (base_addr b + p_vaddr ph + of_nat i) =
        Some (if i < unat (p_filesz ph) then content ! (unat (p_offset ph) + i) else 0)))"

lemma image_of_later: "image_of content m b \<Longrightarrow> m \<subseteq>\<^sub>m m' \<Longrightarrow> image_of content m' b"
  unfolding image_of_def using map_le_at by fastforce

text \<open>The files the theorem is about: mappable, and no segment wraps or is cut short.\<close>

definition loadable :: "os \<Rightarrow> ELFBinary \<Rightarrow> bool" where
  "loadable os b \<longleftrightarrow> (\<forall>ph \<in> set (file_phdrs b). seg_ok (base_addr b) ph) \<and>
     (\<forall>content. os_file os (bin_path b) = Some content \<longrightarrow> length content + 4095 < 2 ^ 64)"

definition has_image :: "os \<Rightarrow> memory \<Rightarrow> ELFBinary \<Rightarrow> bool" where
  "has_image os m b \<longleftrightarrow>
     (\<exists>content. os_file os (bin_path b) = Some content \<and> image_of content m b)"

lemma ctor_keeps:
  assumes "mmap_fresh os" and "proc_wf P" and "ELFBinary_ctor os path P = Inr (b, P')"
  shows "mem P \<subseteq>\<^sub>m mem P'"
  using assms(3)
proof (rule ctor_parts)
  fix content
  let ?P = "P\<lparr>fds := fds P - 1\<rparr>"
  assume "mmap_file os content (page_ceil (of_nat (length content)))
      (PROT_READ OR PROT_WRITE OR PROT_EXEC) ?P = (file_base_addr b, P')"
    and "file_base_addr b \<noteq> MAP_FAILED"
  moreover have "proc_wf ?P" using assms(2) by simp
  ultimately show ?thesis
    unfolding mmap_file_def map_le_def
    using mmap_with_keeps(2) [OF assms(1), of ?P] by (metis domIff proc.select_convs(1) proc.surjective proc.update_convs(3))
qed

interpretation wf_loop: checked_loop "load_segment os"
  "\<lambda>bP. mmap_fresh os \<and> proc_wf (snd bP)" for os
proof (unfold_locales, goal_cases)
  case (1 bP ph bP')
  then show ?case
    using load_segment_wf [of os "snd bP" "fst bP" ph "fst bP'" "snd bP'"] by simp
qed

lemma load_binary_wf:
  assumes "mmap_fresh os" and "proc_wf P" and "load_binary os path (L, P) = Inr (b, L', P')"
  shows "proc_wf P'"
proof -
  from assms(3) obtain b0 P1 nxt where c: "ELFBinary_ctor os path P = Inr (b0, P1)"
    and l: "Load os (next_base_addr L) b0 P1 = Inr (nxt, b, P')"
    by (auto simp: load_binary_def res_simps)
  have wf: "proc_wf (P\<lparr>fds := fds P - 1\<rparr>)" using assms(2) by simp
  from c have "proc_wf P1"
    by (rule ctor_parts) (rule mmap_with_wf [OF assms(1) wf], simp add: mmap_file_def)
  from l obtain b1 b2 where
    "foldR (load_segment os) (b1, P1) (file_phdrs b0) = Inr (b2, P')" by (rule Load_parts)
  from wf_loop.loop_inv [OF _ this] \<open>proc_wf P1\<close> assms(1) show ?thesis by simp
qed

lemma load_binary_effect:
  assumes "mmap_fresh os" and "proc_wf P" and "load_binary os path (L, P) = Inr (b, L', P')"
    and "loadable os b"
  shows "proc_wf P' \<and> mem P \<subseteq>\<^sub>m mem P' \<and> has_image os (mem P') b"
proof -
  from assms(3) obtain b0 P1 nxt where c: "ELFBinary_ctor os path P = Inr (b0, P1)"
    and l: "Load os (next_base_addr L) b0 P1 = Inr (nxt, b, P')"
    by (auto simp: load_binary_def res_simps)
  from c obtain content where content: "os_file os path = Some content" by (rule ctor_parts)
  have path: "bin_path b = path" by (rule load_binary_appends(3) [OF assms(3)])
  with assms(4) content have len: "length content + 4095 < 2 ^ 64"
    and ok: "\<forall>ph \<in> set (file_phdrs b0). seg_ok (base_addr b) ph"
    using Load_same(3) [OF l] by (auto simp: loadable_def)
  note wf1 = ctor_maps_file(1) [OF assms(1,2) c content len]
  have "image_of content (mem P') b"
    unfolding image_of_def Load_same(3) [OF l]
    using segment_bytes [OF assms(1,2) c l content len ok] by blast
  with Load_effect(1,3) [OF assms(1) wf1 l ok] ctor_keeps [OF assms(1,2) c] content path
  show ?thesis by (auto simp: has_image_def intro: map_le_trans)
qed

section \<open>The whole graph\<close>

text \<open>
  Loading keeps processes well formed; and if every file is loadable, it keeps memory and
  leaves an image of every new file.
\<close>

interpretation load_wf: load_relation os
  "\<lambda>s s'. mmap_fresh os \<longrightarrow> proc_wf (snd s) \<longrightarrow> proc_wf (snd s')" for os
  by unfold_locales (auto intro: load_binary_wf)

definition keeps_images :: "os \<Rightarrow> DynLoader \<times> proc \<Rightarrow> DynLoader \<times> proc \<Rightarrow> bool" where
  "keeps_images os s s' \<longleftrightarrow> set (binaries (fst s)) \<subseteq> set (binaries (fst s')) \<and>
     (mmap_fresh os \<and> proc_wf (snd s) \<and> (\<forall>b \<in> set (binaries (fst s')). loadable os b) \<longrightarrow>
       proc_wf (snd s') \<and> mem (snd s) \<subseteq>\<^sub>m mem (snd s') \<and>
       (\<forall>b \<in> set (binaries (fst s')). b \<in> set (binaries (fst s)) \<or> has_image os (mem (snd s')) b))"

lemma has_image_later: "has_image os m b \<Longrightarrow> m \<subseteq>\<^sub>m m' \<Longrightarrow> has_image os m' b"
  by (auto simp: has_image_def intro: image_of_later)

interpretation image_keeping: load_relation os "keeps_images os" for os
proof (unfold_locales, goal_cases)
  case (2 s t u)
  show ?case
  proof (cases "mmap_fresh os \<and> proc_wf (snd s) \<and> (\<forall>b \<in> set (binaries (fst u)). loadable os b)")
    case True
    with 2 have "\<forall>b \<in> set (binaries (fst t)). loadable os b" by (auto simp: keeps_images_def)
    with 2 True show ?thesis
      by (fastforce simp: keeps_images_def intro: map_le_trans has_image_later)
  qed (use 2 in \<open>auto simp: keeps_images_def\<close>)
next
  case (4 path L P b L' P')
  with load_binary_effect [of os P path L b L' P'] load_binary_appends(1) [OF 4] show ?case
    by (auto simp: keeps_images_def)
qed (simp_all add: keeps_images_def)

text \<open>
  C3: after \<open>LoadDependingLibs\<close> the image of every file it loaded is in memory at once.
  Nothing that was mapped before has changed, and every byte of every \<open>PT_LOAD\<close> segment of
  every new file is the byte of that file, or zero past \<open>p_filesz\<close>, provided the kernel
  never maps over existing areas and no segment wraps or has more file than memory.
\<close>

theorem LoadDependingLibs_images:
  assumes "mmap_fresh os" and "proc_wf P" and "LoadDependingLibs os root (L, P) = Inr (L', P')"
    and "binaries L = []" and "\<forall>b \<in> set (binaries L'). loadable os b"
  shows "proc_wf P' \<and> mem P \<subseteq>\<^sub>m mem P' \<and>
    (\<forall>b \<in> set (binaries L'). has_image os (mem P') b)"
  using image_keeping.libs_rel [OF assms(3)] assms(1,2,4,5) by (simp add: keeps_images_def)

theorem LoadDependingLibs_images_witness:
  "\<exists>L P b L' P'. (L, P) = DynLoader_ctor ''/a'' [] [] (empty_proc 6) \<and>
     LoadDependingLibs (host_with [(''/a'', dyn_file)]) ''/a'' (L, P) = Inr (L', P') \<and>
     binaries L' = [b] \<and> dyn_seg \<in> set (file_phdrs b) \<and> mem P' 0x1400010 = Some 5"
proof -
  let ?os = "host_with [(''/a'', dyn_file)]"
  obtain L P where c: "(L, P) = DynLoader_ctor ''/a'' [] [] (empty_proc 6)" by (metis surj_pair)
  then have L: "binaries L = []" "P = empty_proc 5" by (simp_all add: dyn_ctor_state)
  obtain b L' P' where l: "LoadDependingLibs ?os ''/a'' (L, P) = Inr (L', P')"
    and b: "binaries L' = [b]" "base_addr b = 0x1400000"
      "file_phdrs b = [dyn_seg, dyn_seg\<lparr>p_type := PT_DYNAMIC\<rparr>]"
    using dyn_LoadDependingLibs unfolding c [symmetric] by blast
  from LoadDependingLibs_shape [OF l] b L have p: "bin_path b = ''/a''" by auto
  have "loadable ?os b" by (simp add: loadable_def b p seg_ok_def dyn_seg_def dyn_file_eq)
  with b have "\<forall>b \<in> set (binaries L'). loadable ?os b" by simp
  from LoadDependingLibs_images [OF host_with_fresh _ l L(1) this] b L empty_proc_wf
  have "has_image ?os (mem P') b" by simp
  then have "image_of dyn_file (mem P') b" by (simp add: has_image_def p)
  then have "mem P' 0x1400010 = Some 5"
    unfolding image_of_def b(3) by (auto simp: b(2) dyn_seg_def dyn_file_eq dest: spec [of _ "0 :: nat"])
  with c l b show ?thesis by fastforce
qed

end
