(* ===== verification/Dependency_Graph.thy ===== *)
theory Dependency_Graph
  imports Load_Order
begin

text \<open>
  The properties of \<open>LoadDependingLibs\<close> as a traversal of the dependency graph, and a
  sample graph: a program \<open>/a\<close> that needs the library \<open>b\<close>, which lies in
  \<open>/lib\<close>.
\<close>

section \<open>Properties\<close>

text \<open>
  C4: \<open>LoadDependingLibs\<close> loads the dependency graph breadth first. The root comes first;
  then, in the order in which the files loaded so far name them, one file for every name that
  was not loaded before and is neither the dynamic linker nor libc, found with the
  \<open>RUNPATH\<close> and \<open>RPATH\<close> of the file that named it first. Afterwards the loaded set
  is closed: it holds every name any new file needs.
\<close>

theorem LoadDependingLibs_bfs:
  assumes "LoadDependingLibs os root (L, P) = Inr (L', P')"
  shows "\<exists>b bs. binaries L' = binaries L @ b # bs \<and> bin_path b = root \<and>
    loaded L' = insert (filename root) (loaded L) \<union> (\<Union>d \<in> set (b # bs). set (neededs d)) \<and>
    found os (fds P - 1) (fresh_entries (insert (filename root) (loaded L))
      (concat (map pending_of (b # bs)))) bs"
  using assms by (rule LoadDependingLibs_order)

text \<open>
  C30: descriptors are only ever used up. Every file that is loaded keeps one descriptor open
  for the life of the process, since neither the constructor nor \<open>Load\<close> closes it.
\<close>

theorem LoadDependingLibs_descriptors:
  assumes "LoadDependingLibs os root (L, P) = Inr (L', P')"
  shows "fds P' + length (binaries L') = fds P + length (binaries L)"
  using descriptor_count.libs_rel [OF assms] by (simp add: descriptors_def)

section \<open>A sample graph\<close>

text \<open>The dynamic section of the program: a string table with one name, and that name needed.\<close>

definition need_seg :: Elf64_Phdr where
  "need_seg = \<lparr>p_type = PT_LOAD, p_flags = PF_R, p_offset = 176, p_vaddr = 0x10,
     p_filesz = 34, p_memsz = 34\<rparr>"

definition need_dyn :: Elf64_Phdr where
  "need_dyn = need_seg\<lparr>p_type := PT_DYNAMIC, p_filesz := 32, p_memsz := 32\<rparr>"

definition need_file :: "byte list" where
  "need_file = enc_Ehdr \<lparr>e_type = ET_DYN, e_entry = 0x10, e_phoff = 64, e_phentsize = 56,
       e_phnum = 2\<rparr> @ enc_Phdr need_seg @ enc_Phdr need_dyn @
     enc_Dyn \<lparr>d_tag = DT_STRTAB, d_un = 0x30\<rparr> @ enc_Dyn \<lparr>d_tag = DT_NEEDED, d_un = 0\<rparr> @ [0x62, 0]"

lemma need_file_eq:
  "need_file =
    [0, 0, 0, 0, 0, 0, 0, 0, 0, 0, 0, 0, 0, 0, 0, 0, 3, 0, 0, 0, 0, 0, 0, 0, 16, 0, 0, 0, 0, 0, 0, 0,
     64, 0, 0, 0, 0, 0, 0, 0, 0, 0, 0, 0, 0, 0, 0, 0, 0, 0, 0, 0, 0, 0, 56, 0, 2, 0, 0, 0, 0, 0, 0, 0,
     1, 0, 0, 0, 4, 0, 0, 0, 176, 0, 0, 0, 0, 0, 0, 0, 16, 0, 0, 0, 0, 0, 0, 0, 0, 0, 0, 0, 0, 0, 0, 0,
     34, 0, 0, 0, 0, 0, 0, 0, 34, 0, 0, 0, 0, 0, 0, 0, 0, 0, 0, 0, 0, 0, 0, 0, 2, 0, 0, 0, 4, 0, 0, 0,
     176, 0, 0, 0, 0, 0, 0, 0, 16, 0, 0, 0, 0, 0, 0, 0, 0, 0, 0, 0, 0, 0, 0, 0, 32, 0, 0, 0, 0, 0, 0, 0,
     32, 0, 0, 0, 0, 0, 0, 0, 0, 0, 0, 0, 0, 0, 0, 0, 5, 0, 0, 0, 0, 0, 0, 0, 0x30, 0, 0, 0, 0, 0, 0, 0,
     1, 0, 0, 0, 0, 0, 0, 0, 0, 0, 0, 0, 0, 0, 0, 0, 0x62, 0]"
  by (simp add: need_file_def enc_Ehdr_def enc_Phdr_def enc_Dyn_def need_seg_def need_dyn_def
      bytes_of_def eval_simps)

definition start_host :: os where
  "start_host = host_with [(''/lib/b'', dyn_file), (''/a'', need_file)]"

lemma start_host_sel [simp, eval_simps]:
  "os_file start_host ''/a'' = Some need_file" "os_file start_host ''/lib/b'' = Some dyn_file"
  "os_exists start_host p = (p = ''/a'' \<or> p = ''/lib/b'')" "os_pick start_host = first_fit"
  by (simp_all add: start_host_def)

text \<open>The mappings before anything is loaded, with the program, with its library, with a copy of it.\<close>

definition start_vmas :: "vma list" where
  "start_vmas = [(0x4f000, 0x1000, 3), (0x60000, 0x2000, 3), (0x7f0000000000, 0x1000, 7)]"

definition prog_vmas :: "vma list" where
  "prog_vmas = start_vmas @ [(0x7f0001000000, 0x1000, 7), (0x1400000, 0x1000, 3)]"

definition lib_vmas :: "vma list" where
  "lib_vmas = prog_vmas @ [(0x7f0002000000, 0x1000, 7), (0x1800000, 0x1000, 3)]"

definition copy_vmas :: "vma list" where
  "copy_vmas = lib_vmas @ [(0x7f0003000000, 0x1000, 7), (0x1c00000, 0x1000, 3)]"

lemmas run_vmas = start_vmas_def prog_vmas_def lib_vmas_def copy_vmas_def

section \<open>Loading the sample\<close>

abbreviation run_proc :: "memory \<Rightarrow> vma list \<Rightarrow> nat \<Rightarrow> string \<Rightarrow> proc" where
  "run_proc m vs n f \<equiv> \<lparr>mem = m, vmas = vs, fds = n, map_file = f\<rparr>"

text \<open>A loaded file without relocations, constructors, symbols or thread-local storage.\<close>

definition plain_bin :: "path \<Rightarrow> addr \<Rightarrow> string list \<Rightarrow> ELFBinary \<Rightarrow> bool" where
  "plain_bin p base ns b \<longleftrightarrow> bin_path b = p \<and> base_addr b = base \<and> end_addr b = base + 0x1000 \<and>
     neededs b = ns \<and> runpath b = None \<and> rpath b = None \<and> relas b = [] \<and> pltrelas b = [] \<and>
     symtabs b = [] \<and> init b = 0 \<and> init_arraysz b = 0 \<and> \<not> has_tls b \<and> file_tls b = None \<and>
     e_type (ehdr b) = ET_DYN \<and> e_entry (ehdr b) = 0x10"

lemma char_b: "char_of (98 :: nat) = CHR ''b''" by code_simp

lemma start_load_prog:
  assumes "next_base_addr L = 0x1400000"
  shows "\<exists>b m' f'. load_binary start_host ''/a''
       (L, \<lparr>mem = m, vmas = start_vmas, fds = Suc n, map_file = f\<rparr>) =
     Inr (b, L\<lparr>binaries := binaries L @ [b], next_base_addr := 0x1800000\<rparr>,
       \<lparr>mem = m', vmas = prog_vmas, fds = n, map_file = f'\<rparr>) \<and>
     plain_bin ''/a'' 0x1400000 [''b''] b \<and> file_phdrs b = [need_seg, need_dyn]"
  using assms
  by (simp add: load_binary_def eval_simps parse_strtab_def parse_dyn_def dyn_tags_def set_dyn_def
      read_cstr.simps char_b run_vmas need_file_eq need_seg_def need_dyn_def plain_bin_def)

lemma start_load_lib:
  assumes "next_base_addr L = 0x1800000"
  shows "\<exists>b m' f'. load_binary start_host ''/lib/b''
       (L, \<lparr>mem = m, vmas = prog_vmas, fds = Suc n, map_file = f\<rparr>) =
     Inr (b, L\<lparr>binaries := binaries L @ [b], next_base_addr := 0x1c00000\<rparr>,
       \<lparr>mem = m', vmas = lib_vmas, fds = n, map_file = f'\<rparr>) \<and>
     plain_bin ''/lib/b'' 0x1800000 [] b \<and> file_phdrs b = [dyn_seg, dyn_seg\<lparr>p_type := PT_DYNAMIC\<rparr>]"
  using assms
  by (simp add: load_binary_def eval_simps parse_strtab_def parse_dyn_def dyn_tags_def
      run_vmas dyn_file_eq dyn_seg_def plain_bin_def)

lemma start_load_copy:
  assumes "next_base_addr L = 0x1c00000"
  shows "\<exists>b m' f'. load_binary start_host ''/lib/b''
       (L, \<lparr>mem = m, vmas = lib_vmas, fds = Suc n, map_file = f\<rparr>) =
     Inr (b, L\<lparr>binaries := binaries L @ [b], next_base_addr := 0x2000000\<rparr>,
       \<lparr>mem = m', vmas = copy_vmas, fds = n, map_file = f'\<rparr>) \<and>
     plain_bin ''/lib/b'' 0x1c00000 [] b \<and> file_phdrs b = [dyn_seg, dyn_seg\<lparr>p_type := PT_DYNAMIC\<rparr>]"
  using assms
  by (simp add: load_binary_def eval_simps parse_strtab_def parse_dyn_def dyn_tags_def
      run_vmas dyn_file_eq dyn_seg_def plain_bin_def)

lemma start_find: "FindLibrary start_host (Suc n) ''b'' None None = Inr ''/lib/b''"
proof -
  have "library_dirs start_host (Suc n) None None =
     [''/lib'', ''/usr/lib'', ''/usr/lib64'', ''/usr/lib/x86_64-linux-gnu'', ''.'']"
    by (simp add: library_dirs_def start_host_def read_ldsoconf_def)
  then show ?thesis
    by (simp add: FindLibrary_def is_absolute_def slash_def)
       (simp add: start_host_def filename_def slash_def entry_matches_def path_append_def
         starts_with_def is_absolute_def)
qed

lemma start_libs:
  assumes "next_base_addr L = 0x1400000" and "loaded L = {}" and "binaries L = []"
  shows "\<exists>b c m' f'. LoadDependingLibs start_host ''/a''
       (L, \<lparr>mem = m, vmas = start_vmas, fds = Suc (Suc n), map_file = f\<rparr>) =
     Inr (L\<lparr>binaries := [b, c], next_base_addr := 0x1c00000, loaded := {''b'', ''a''}\<rparr>,
       \<lparr>mem = m', vmas = lib_vmas, fds = n, map_file = f'\<rparr>) \<and>
     plain_bin ''/a'' 0x1400000 [''b''] b \<and> plain_bin ''/lib/b'' 0x1800000 [] c"
proof -
  obtain b m1 f1 where 1: "load_binary start_host ''/a''
       (L, \<lparr>mem = m, vmas = start_vmas, fds = Suc (Suc n), map_file = f\<rparr>) =
     Inr (b, L\<lparr>binaries := [b], next_base_addr := 0x1800000\<rparr>,
       \<lparr>mem = m1, vmas = prog_vmas, fds = Suc n, map_file = f1\<rparr>)"
    and b: "plain_bin ''/a'' 0x1400000 [''b''] b"
    using start_load_prog [OF assms(1), of m "Suc n" f] assms(3) by auto
  let ?L = "L\<lparr>binaries := [b], next_base_addr := 0x1800000, loaded := {''b'', ''a''}\<rparr>"
  obtain c m2 f2 where 2: "load_binary start_host ''/lib/b''
       (?L, \<lparr>mem = m1, vmas = prog_vmas, fds = Suc n, map_file = f1\<rparr>) =
     Inr (c, ?L\<lparr>binaries := [b, c], next_base_addr := 0x1c00000\<rparr>,
       \<lparr>mem = m2, vmas = lib_vmas, fds = n, map_file = f2\<rparr>)"
    and c: "plain_bin ''/lib/b'' 0x1800000 [] c"
    using start_load_lib [of ?L m1 n f1] by auto
  have "filename ''/a'' = ''a''" by (simp add: filename_def slash_def)
  moreover have "pending_of b = [(''b'', None, None)]" "pending_of c = []"
    using b c by (simp_all add: pending_of_def plain_bin_def)
  moreover have "\<not> skipped_library ''b''" by (simp add: skipped_library_def contains_def)
  ultimately have "LoadDependingLibs start_host ''/a''
       (L, \<lparr>mem = m, vmas = start_vmas, fds = Suc (Suc n), map_file = f\<rparr>) =
     Inr (?L\<lparr>binaries := [b, c], next_base_addr := 0x1c00000\<rparr>,
       \<lparr>mem = m2, vmas = lib_vmas, fds = n, map_file = f2\<rparr>)"
    using assms(2) 2 by (simp add: LoadDependingLibs_def 1 start_find)
  with b c show ?thesis by (intro exI [of _ b] exI [of _ c] exI [of _ m2] exI [of _ f2]) simp
qed

section \<open>The properties on the sample\<close>

definition graph_loader :: DynLoader where
  "graph_loader = fst (DynLoader_ctor ''/a'' [] [] (empty_proc 1))"

lemma graph_libs:
  "\<exists>L' P' b c. LoadDependingLibs start_host ''/a'' (graph_loader, run_proc m start_vmas 7 []) = Inr (L', P') \<and>
     fds P' = 5 \<and> binaries L' = [b, c] \<and> plain_bin ''/a'' 0x1400000 [''b''] b \<and>
     plain_bin ''/lib/b'' 0x1800000 [] c"
proof -
  have "next_base_addr graph_loader = 0x1400000" "loaded graph_loader = {}" "binaries graph_loader = []"
    by (simp_all add: graph_loader_def DynLoader_ctor_def)
  from start_libs [OF this, of m 5 "[]"] show ?thesis by auto
qed

theorem LoadDependingLibs_bfs_witness:
  "\<exists>L' P' b c. LoadDependingLibs start_host ''/a'' (graph_loader, run_proc (\<lambda>_. None) start_vmas 7 []) = Inr (L', P') \<and>
     binaries L' = [b, c] \<and> bin_path b = ''/a'' \<and> neededs b = [''b''] \<and> loaded L' = {''a'', ''b''} \<and>
     FindLibrary start_host 6 ''b'' None None = Inr (bin_path c)"
proof -
  obtain L' P' b c where l: "LoadDependingLibs start_host ''/a''
      (graph_loader, run_proc (\<lambda>_. None) start_vmas 7 []) = Inr (L', P')"
    and bs: "binaries L' = [b, c]" and p: "plain_bin ''/a'' 0x1400000 [''b''] b" "plain_bin ''/lib/b'' 0x1800000 [] c"
    using graph_libs [of "\<lambda>_. None"] by (elim exE conjE) (rule that; assumption)
  have g: "binaries graph_loader = []" "loaded graph_loader = {}"
    by (simp_all add: graph_loader_def DynLoader_ctor_def)
  have e: "concat (map pending_of [b, c]) = [(''b'', None, None)]" "filename ''/a'' = ''a''"
    "\<not> skipped_library ''b''" "neededs b = [''b'']" "neededs c = []"
    using p by (simp_all add: pending_of_def plain_bin_def filename_def slash_def skipped_library_def contains_def)
  from LoadDependingLibs_bfs [OF l] bs g e have "bin_path b = ''/a''" "loaded L' = {''a'', ''b''}"
    "FindLibrary start_host 6 ''b'' None None = Inr (bin_path c)" by auto
  with l bs e(4) show ?thesis by blast
qed

theorem LoadDependingLibs_descriptors_witness:
  "\<exists>L' P'. LoadDependingLibs start_host ''/a'' (graph_loader, run_proc (\<lambda>_. None) start_vmas 7 []) = Inr (L', P') \<and>
     length (binaries L') = 2 \<and> fds P' = 5"
proof -
  obtain L' P' b c where l: "LoadDependingLibs start_host ''/a''
      (graph_loader, run_proc (\<lambda>_. None) start_vmas 7 []) = Inr (L', P')"
    and bs: "binaries L' = [b, c]"
    using graph_libs [of "\<lambda>_. None"] by (elim exE conjE) (rule that; assumption)
  from LoadDependingLibs_descriptors [OF l] bs have "fds P' = 5"
    by (simp add: graph_loader_def DynLoader_ctor_def)
  with l bs show ?thesis by auto
qed

end
