(* ===== verification/Sample_Run.thy ===== *)
theory Sample_Run
  imports Start_Returns Images Dependency_Graph
begin

text \<open>
  A run of the loader on the sample graph: \<open>main\<close> with the program \<open>/a\<close> up to the
  jump. The witnesses about whole runs and sessions use it.
\<close>

section \<open>From \<open>main\<close> to the jump\<close>

text \<open>A process with a stack below 0x50000 and the block of thread-local storage at 0x60000.\<close>

definition start_mem :: memory where
  "start_mem = map_at (map_at (\<lambda>_. None) 0x4f000 0x1000 (\<lambda>_. 0)) 0x60000 0x2000 (\<lambda>_. 0)"

definition start_libc :: libc where
  "start_libc = \<lparr>libc_map = (\<lambda>_. None), libc_tls_variables = (\<lambda>_. None), tls_block = 0x60000\<rparr>"

definition start_proc :: proc where
  "start_proc = \<lparr>mem = start_mem, vmas = [(0x4f000, 0x1000, 3), (0x60000, 0x2000, 3)], fds = 9,
     map_file = []\<rparr>"

abbreviation header_mem :: memory where
  "header_mem \<equiv> map_at start_mem 0x7f0000000000 0x1000 (file_byte need_file)"

lemma start_etype: "GetEType start_host ''/a'' start_proc = Inr (ET_DYN, run_proc header_mem start_vmas 8 [])"
  by (simp add: eval_simps GetEType_def start_proc_def need_file_eq start_vmas_def)

lemma start_secure: "\<exists>m. write_sloader_dummy_to_secure_tls_space 0x60000 header_mem = Inr m"
  by (simp add: write_sloader_dummy_to_secure_tls_space_def TLS_SPACE_FOR_LOADEE_def eval_simps
      start_mem_def)

lemma header_wf: "proc_wf (run_proc header_mem start_vmas n [])"
  by (auto simp: proc_wf_def start_mem_def map_at_def in_area_def start_vmas_def)

definition start_loader :: DynLoader where
  "start_loader = \<lparr>main_path = ''/a'', args = [''/a''], envs = [], next_base_addr = 0x1400000,
    loaded = {}, relocated = (\<lambda>_. False), binaries = []\<rparr>"

lemma start_init:
  "\<exists>m. InitializeDynLoader start_libc ''/a'' [] [''/a''] (None, run_proc header_mem start_vmas 8 []) =
       Inr (Some start_loader, run_proc m start_vmas 7 []) \<and> proc_wf (run_proc m start_vmas 7 [])"
proof -
  obtain m where w: "write_sloader_dummy_to_secure_tls_space 0x60000 header_mem = Inr m"
    using start_secure by blast
  have "proc_wf (run_proc m start_vmas 7 [])"
    using proc_wf_mem [OF header_wf [of 7], of m] write_secure_mapped [OF w] by simp
  with w show ?thesis
    by (simp add: InitializeDynLoader_def start_libc_def DynLoader_ctor_def start_loader_def CHECK_def)
qed

text \<open>Files without relocations need none.\<close>

lemma plain_relocate:
  assumes "\<forall>b \<in> set (binaries L). relas b = [] \<and> pltrelas b = []"
  shows "\<exists>rel. Relocate lc (L, P) = Inr (L\<lparr>relocated := rel\<rparr>, P)"
proof -
  have "worklist dn bs = []" if "\<forall>b \<in> set bs. relas b = [] \<and> pltrelas b = []" for dn and bs :: "ELFBinary list"
    using that by (induction bs arbitrary: dn) auto
  with assms have "\<exists>rel. foldR (relocate_bin lc L) (relocated L, mem P) (binaries L) = Inr (rel, mem P)"
    by (simp add: relocate_bins_worklist)
  then show ?thesis by (auto simp: Relocate_def)
qed

lemma start_stack_mapped:
  assumes "proc_wf P" and "set start_vmas \<subseteq> set (vmas P)" and "i < 4096"
  shows "mem P (0x50000 - 1 - of_nat i) \<noteq> None"
proof -
  from assms(3) have "unat (of_nat i :: u64) = i" by (intro unat_of_nat_u64) simp
  then have "of_nat i \<le> (0xfff :: u64)" using assms(3) by (simp add: word_le_nat_alt)
  from unat_sub [OF this] have "in_area (0x50000 - 1 - of_nat i) (0x4f000, 0x1000, 3)"
    by (simp add: in_area_def diff_right_commute)
  moreover have "(0x4f000, 0x1000, 3) \<in> set (vmas P)" using assms(2) by (auto simp: start_vmas_def)
  ultimately show ?thesis using assms(1) by (auto simp: proc_wf_def)
qed

text \<open>Files without relocations, constructors and thread-local storage need nothing but the stack.\<close>

lemma plain_startable:
  assumes "proc_wf P" and "set start_vmas \<subseteq> set (vmas P)" and "n \<le> 512"
    and "\<forall>b \<in> set (binaries L). relas b = [] \<and> pltrelas b = [] \<and> symtabs b = [] \<and>
      init_arraysz b = 0 \<and> \<not> has_tls b \<and> file_tls b = None"
  shows "startable start_libc 0x50000 n (mem P) L"
proof -
  have "worklist dn bs = []" if "\<forall>b \<in> set bs. relas b = [] \<and> pltrelas b = []" for dn and bs :: "ELFBinary list"
    using that by (induction bs arbitrary: dn) auto
  with assms(4) have "relocatable start_libc (mem P) L"
    by (simp add: relocatable_def Let_def spares_names_def names_readable_def)
  moreover have "list_all (array_ready (mem P)) (binaries L)"
    using assms(4) by (simp add: list_all_iff array_ready_def mapped_def)
  moreover have "tls_fits 0x60000 (mem P) (binaries L)"
  proof -
    have z: "tls_sum bs = 0" if "\<forall>b \<in> set bs. \<not> has_tls b" for bs
      using that by (induction bs) (auto simp: tls_memsz_def)
    have "mem P x \<noteq> None" if "in_range (0x60000 + 4096) 8 x" for x
    proof -
      have "in_area x (0x60000, 0x2000, 3)"
        using that unat_offset_range [of "0x60000" "0x2000" x] by (simp add: in_area_def)
      moreover have "(0x60000, 0x2000, 3) \<in> set (vmas P)" using assms(2) by (auto simp: start_vmas_def)
      ultimately show ?thesis using assms(1) by (auto simp: proc_wf_def)
    qed
    with assms(4) z [of "binaries L"] show ?thesis
      by (simp add: tls_fits_def tls_ready_def list_all_iff tls_sane_def sloader_tls_offset_def)
  qed
  moreover have "stack_room (mem P) 0x50000 n"
    using start_stack_mapped [OF assms(1,2)] assms(3) by (simp add: stack_room_def)
  ultimately show ?thesis by (simp add: startable_def start_libc_def)
qed

lemma quiet_tame: "tame_call quiet_call"
  by (simp add: tame_call_def quiet_call_def)

lemma start_strings: "strings_placed (map (\<lambda>_. 0x5000))"
  by (auto simp: strings_placed_def)

lemma start_random: "os_getauxval start_host AT_RANDOM \<noteq> 0"
  by (simp add: start_host_def)

lemma start_words_few: "start_words start_host [''/a''] [] \<le> 512"
  using aux_tvs_length [of start_host] by simp

text \<open>The loader when the program is loaded and relocated, and the run of \<open>main\<close>.\<close>

lemma start_loaded:
  "\<exists>P0 L1 P1 L2 b c. InitializeDynLoader start_libc ''/a'' [] [''/a''] (None, run_proc header_mem start_vmas 8 []) =
       Inr (Some start_loader, P0) \<and>
     LoadDependingLibs start_host ''/a'' (start_loader, P0) = Inr (L1, P1) \<and>
     Relocate start_libc (L1, P1) = Inr (L2, P1) \<and> proc_wf P1 \<and> vmas P1 = lib_vmas \<and> fds P1 = 5 \<and>
     binaries L2 = [b, c] \<and> next_base_addr L2 = 0x1c00000 \<and> loaded L2 = {''b'', ''a''} \<and>
     args L2 = [''/a''] \<and> envs L2 = [] \<and>
     plain_bin ''/a'' 0x1400000 [''b''] b \<and> plain_bin ''/lib/b'' 0x1800000 [] c"
proof -
  obtain m where i: "InitializeDynLoader start_libc ''/a'' [] [''/a'']
      (None, run_proc header_mem start_vmas 8 []) = Inr (Some start_loader, run_proc m start_vmas 7 [])"
    and wf: "proc_wf (run_proc m start_vmas 7 [])" using start_init by blast
  have "next_base_addr start_loader = 0x1400000" "loaded start_loader = {}" "binaries start_loader = []"
    by (simp_all add: start_loader_def)
  from start_libs [OF this, of m 5 "[]"] obtain b c m' f' where
    l: "LoadDependingLibs start_host ''/a'' (start_loader, run_proc m start_vmas 7 []) =
     Inr (start_loader\<lparr>binaries := [b, c], next_base_addr := 0x1c00000, loaded := {''b'', ''a''}\<rparr>,
       run_proc m' lib_vmas 5 f')"
    and b: "plain_bin ''/a'' 0x1400000 [''b''] b" "plain_bin ''/lib/b'' 0x1800000 [] c" by auto
  let ?L = "start_loader\<lparr>binaries := [b, c], next_base_addr := 0x1c00000, loaded := {''b'', ''a''}\<rparr>"
  from b plain_relocate [of ?L start_libc "run_proc m' lib_vmas 5 f'"] obtain rel where
    r: "Relocate start_libc (?L, run_proc m' lib_vmas 5 f') =
      Inr (?L\<lparr>relocated := rel\<rparr>, run_proc m' lib_vmas 5 f')" by (auto simp: plain_bin_def)
  have "proc_wf (run_proc m' lib_vmas 5 f')"
    using load_wf.libs_rel [OF l] wf host_with_fresh by (simp add: start_host_def)
  with i l r b show ?thesis
    by (intro exI [of _ "run_proc m start_vmas 7 []"] exI [of _ ?L] exI [of _ "run_proc m' lib_vmas 5 f'"]
        exI [of _ "?L\<lparr>relocated := rel\<rparr>"] exI [of _ b] exI [of _ c]) (simp add: start_loader_def)
qed

lemma start_main:
  "\<exists>r. sloader_main start_host start_libc quiet_call (map (\<lambda>_. 0x5000)) 0x50000 [''sloader'', ''/a''] []
     start_proc = Inr r"
proof -
  obtain P0 L1 P1 L2 b c where i: "InitializeDynLoader start_libc ''/a'' [] [''/a'']
      (None, run_proc header_mem start_vmas 8 []) = Inr (Some start_loader, P0)"
    and l: "LoadDependingLibs start_host ''/a'' (start_loader, P0) = Inr (L1, P1)"
      "Relocate start_libc (L1, P1) = Inr (L2, P1)" "proc_wf P1" "vmas P1 = lib_vmas" "binaries L2 = [b, c]"
    and b: "plain_bin ''/a'' 0x1400000 [''b''] b" "plain_bin ''/lib/b'' 0x1800000 [] c"
    using start_loaded by (elim exE conjE) (rule that; assumption)
  let ?s = "\<lparr>loader = start_loader, process = P0, tls_offset = sloader_tls_offset, called = []\<rparr>"
  have "binaries L1 = [b, c]" using l(5) Relocate_fields(1) [OF l(2)] by simp
  then have "startable start_libc 0x50000 (start_words start_host [''/a''] []) (mem P1) L1"
    using b by (intro plain_startable [OF l(3) _ start_words_few]) (simp_all add: l(4) run_vmas plain_bin_def)
  then obtain r where "Run start_host start_libc quiet_call (map (\<lambda>_. 0x5000)) 0x50000 ?s = Inr r"
    using Run_returns [of start_host ?s L1 P1 start_libc "0x50000" quiet_call "map (\<lambda>_. 0x5000)"] l(1)
      quiet_tame start_strings start_random by (auto simp: start_loader_def)
  with i show ?thesis
    by (cases r) (simp add: sloader_main_def program_path_def contains_def start_etype CHECK_def GetDynLoader_def)
qed

end
