(* ===== verification/Session.thy ===== *)
theory Session
  imports Sample_Run
begin

text \<open>
  The loader over the life of a process. \<open>DynLoader\<close> is a global object: \<open>Run\<close> fills it,
  and the program's code, its constructors included, comes back to it through
  \<open>sloader_dlopen\<close>. A session is the sequence of these visits with whatever the program
  does in between as steps of their own. The locale \<open>session_invariant\<close> turns what one visit keeps
  into what holds in every state of every session.
\<close>

section \<open>Steps\<close>

text \<open>
  \<open>own\<close> is the program's own code and the rest of the loader: it may change memory,
  mappings and descriptors, but not the members of the loader.
\<close>

inductive session_step :: "os \<Rightarrow> libc \<Rightarrow> global \<Rightarrow> global \<Rightarrow> bool" for os lc where
  dlopen: "sloader_dlopen os lc fname flags g = Inr (h, g') \<Longrightarrow> session_step os lc g g'"
| own: "(proc_wf P \<longrightarrow> proc_wf P') \<Longrightarrow> session_step os lc (lo, P) (lo, P')"

abbreviation session_steps :: "os \<Rightarrow> libc \<Rightarrow> global \<Rightarrow> global \<Rightarrow> bool" where
  "session_steps os lc \<equiv> (session_step os lc)\<^sup>*\<^sup>*"

text \<open>A session starts where \<open>Run\<close> has loaded and relocated the program.\<close>

inductive session_start ::
  "os \<Rightarrow> libc \<Rightarrow> path \<Rightarrow> string list \<Rightarrow> string list \<Rightarrow> proc \<Rightarrow> global \<Rightarrow> bool"
  for os lc path argv envp P0 where
  "InitializeDynLoader lc path envp argv (None, P0) = Inr (Some L, P) \<Longrightarrow>
   LoadDependingLibs os path (L, P) = Inr (L1, P1) \<Longrightarrow> Relocate lc (L1, P1) = Inr (L2, P2) \<Longrightarrow>
   session_start os lc path argv envp P0 (Some L2, P2)"

inductive in_session ::
  "os \<Rightarrow> libc \<Rightarrow> path \<Rightarrow> string list \<Rightarrow> string list \<Rightarrow> proc \<Rightarrow> global \<Rightarrow> bool"
  for os lc path argv envp P0 where
  "session_start os lc path argv envp P0 g \<Longrightarrow> session_steps os lc g g' \<Longrightarrow>
   in_session os lc path argv envp P0 g'"

inductive_cases session_startE: "session_start os lc path argv envp P0 g"
inductive_cases in_sessionE: "in_session os lc path argv envp P0 g"

text \<open>A \<open>dlopen\<close> either changes nothing or loads and relocates.\<close>

lemma dlopen_visits:
  assumes "sloader_dlopen os lc fname flags g = Inr (h, g')"
  obtains "g' = g"
  | L P f root L1 P1 L2 P2 where "g = (Some L, P)" "fname = Some f"
      "FindLibrary os (fds P) f None None = Inr root"
      "LoadDependingLibs os root (L, P) = Inr (L1, P1)" "Relocate lc (L1, P1) = Inr (L2, P2)"
      "g' = (Some L2, P2)"
  using assms
  by (cases g)
     (auto simp: sloader_dlopen_def GetDynLoader_def res_simps split: option.splits if_splits)

section \<open>Invariants\<close>

text \<open>
  The contract: \<open>I\<close> holds of the new loader, survives one visit (loading a root and
  relocating; the first root is the program), and does not depend on what the program does to
  its process beyond keeping it well formed.
\<close>

locale session_invariant =
  fixes os :: os and lc :: libc and path :: path and argv envp :: "string list" and P0 :: proc
    and I :: "DynLoader \<times> proc \<Rightarrow> bool"
  assumes I_new: "InitializeDynLoader lc path envp argv (None, P0) = Inr (Some L, P) \<Longrightarrow> I (L, P)"
    and I_visit: "I (L, P) \<Longrightarrow> LoadDependingLibs os root (L, P) = Inr (L1, P1) \<Longrightarrow>
      Relocate lc (L1, P1) = Inr (L2, P2) \<Longrightarrow> (binaries L = [] \<Longrightarrow> root = main_path L) \<Longrightarrow>
      I (L2, P2)"
    and I_own: "I (L, P) \<Longrightarrow> (proc_wf P \<longrightarrow> proc_wf P') \<Longrightarrow> I (L, P')"
begin

lemma start_inv:
  assumes "session_start os lc path argv envp P0 g"
  shows "\<exists>L P. g = (Some L, P) \<and> binaries L \<noteq> [] \<and> I (L, P)"
proof -
  from assms obtain L P L1 P1 L2 P2 where g: "g = (Some L2, P2)"
    and i: "InitializeDynLoader lc path envp argv (None, P0) = Inr (Some L, P)"
    and l: "LoadDependingLibs os path (L, P) = Inr (L1, P1)"
    and r: "Relocate lc (L1, P1) = Inr (L2, P2)" by (elim session_startE) blast
  from i have "main_path L = path"
    by (auto simp: InitializeDynLoader_def DynLoader_ctor_def res_simps)
  with I_visit [OF I_new [OF i] l r] have "I (L2, P2)" by simp
  moreover have "binaries L2 \<noteq> []"
    using LoadDependingLibs_grows [OF l] Relocate_fields(1) [OF r] by auto
  ultimately show ?thesis using g by blast
qed

lemma step_inv:
  assumes "session_step os lc (Some L, P) g'" and "I (L, P)" and "binaries L \<noteq> []"
  shows "\<exists>L' P'. g' = (Some L', P') \<and> binaries L' \<noteq> [] \<and> I (L', P')"
  using assms(1)
proof cases
  case (dlopen fname flags h)
  from dlopen show ?thesis
  proof (cases rule: dlopen_visits)
    case 1
    with assms show ?thesis by simp
  next
    case (2 L0 P00 f root L1 P1 L2 P2)
    then have "I (L2, P2)" using I_visit [of L P root L1 P1 L2 P2] assms(2,3) by auto
    moreover have "binaries L2 \<noteq> []"
      using LoadDependingLibs_grows [OF 2(4)] Relocate_fields(1) [OF 2(5)] by auto
    ultimately show ?thesis using 2 by blast
  qed
next
  case (own P')
  with assms I_own show ?thesis by blast
qed

lemma session_inv:
  assumes "in_session os lc path argv envp P0 (Some L, P)"
  shows "binaries L \<noteq> [] \<and> I (L, P)"
proof -
  from assms obtain g where g: "session_start os lc path argv envp P0 g"
    and st: "session_steps os lc g (Some L, P)" by (rule in_sessionE)
  have "\<exists>L P. g' = (Some L, P) \<and> binaries L \<noteq> [] \<and> I (L, P)" if "session_steps os lc g g'" for g'
    using that
  proof (induction rule: rtranclp_induct)
    case base
    from start_inv [OF g] show ?case .
  next
    case (step g1 g2)
    then show ?case using step_inv by blast
  qed
  from this [OF st] show ?thesis by simp
qed

end

section \<open>Every need is served\<close>

text \<open>
  A name is served when it is the dynamic linker or libc, the name of a loaded file, or when
  \<open>FindLibrary\<close>, asked on behalf of a loaded file, answered with a loaded file.
\<close>

definition served :: "os \<Rightarrow> ELFBinary list \<Rightarrow> string \<Rightarrow> bool" where
  "served os bs n \<longleftrightarrow> skipped_library n \<or>
     (\<exists>b \<in> set bs. n = filename (bin_path b) \<or>
        (\<exists>c \<in> set bs. \<exists>k. FindLibrary os k n (runpath c) (rpath c) = Inr (bin_path b)))"

lemma served_more: "served os bs n \<Longrightarrow> served os (bs @ cs) n"
  by (auto simp: served_def)

lemma fresh_entries_subset: "set (fresh_entries seen es) \<subseteq> set es"
proof (induction es arbitrary: seen)
  case Nil
  then show ?case by simp
next
  case (Cons e es)
  from Cons [of seen] Cons [of "insert (fst e) seen"] show ?case by auto
qed

lemma found_answers:
  "found os k es bs \<Longrightarrow> (n, rp, rr) \<in> set es \<Longrightarrow>
    \<exists>b \<in> set bs. \<exists>k. FindLibrary os k n rp rr = Inr (bin_path b)"
proof (induction os k es bs rule: found.induct)
  case (1 os k bs)
  then show ?case by simp
next
  case (2 os k name rp' rr' es bs)
  then obtain b bs' where "bs = b # bs'" "FindLibrary os k name rp' rr' = Inr (bin_path b)"
    "found os (k - 1) es bs'" by (auto split: list.splits)
  with 2 show ?case by fastforce
qed

lemma LoadDependingLibs_serves:
  assumes "LoadDependingLibs os root (L, P) = Inr (L', P')"
    and "\<forall>n \<in> loaded L. served os (binaries L) n"
  shows "\<forall>n \<in> loaded L'. served os (binaries L') n"
proof
  fix n
  assume n: "n \<in> loaded L'"
  from LoadDependingLibs_order [OF assms(1)] obtain b bs where
    bs: "binaries L' = binaries L @ b # bs" "bin_path b = root"
    and ld: "loaded L' = insert (filename root) (loaded L) \<union> (\<Union>d \<in> set (b # bs). set (neededs d))"
    and f: "found os (fds P - 1) (fresh_entries (insert (filename root) (loaded L))
      (concat (map pending_of (b # bs)))) bs" by blast
  let ?es = "concat (map pending_of (b # bs))" and ?seen = "insert (filename root) (loaded L)"
  consider "n \<in> loaded L" | "n = filename root" | "skipped_library n"
    | "n \<in> fst ` set (fresh_entries ?seen ?es)"
    using n ld pending_names [of "b # bs"] fresh_entries_set [of ?seen ?es] by auto
  then show "served os (binaries L') n"
  proof cases
    case 1
    with assms(2) served_more bs show ?thesis by auto
  next
    case 4
    then obtain rp rr where e: "(n, rp, rr) \<in> set (fresh_entries ?seen ?es)" by auto
    with fresh_entries_subset have "(n, rp, rr) \<in> set ?es" by blast
    then obtain c where "c \<in> set (b # bs)" "rp = runpath c" "rr = rpath c"
      by (fastforce simp: pending_of_def)
    with found_answers [OF f e] bs show ?thesis by (auto simp: served_def)
  qed (use bs in \<open>auto simp: served_def\<close>)
qed

section \<open>The state of the loader\<close>

definition loader_ok :: "os \<Rightarrow> path \<Rightarrow> DynLoader \<Rightarrow> bool" where
  "loader_ok os path L \<longleftrightarrow> main_path L = path \<and>
     (\<forall>b bs. binaries L = b # bs \<longrightarrow> bin_path b = path) \<and>
     (\<Union>b \<in> set (binaries L). set (neededs b)) \<subseteq> loaded L \<and>
     (\<forall>n \<in> loaded L. served os (binaries L) n) \<and>
     (\<forall>b \<in> set (binaries L). relocated L (path_key (bin_path b))) \<and>
     placed_from 0x1400000 (binaries L) (next_base_addr L)"

lemma new_loader:
  assumes "InitializeDynLoader lc path envp argv (None, P0) = Inr (Some L, P)"
  shows "main_path L = path" "binaries L = []" "loaded L = {}" "next_base_addr L = 0x1400000"
  using assms by (auto simp: InitializeDynLoader_def DynLoader_ctor_def res_simps)

lemma Relocate_place:
  "Relocate lc (L, P) = Inr (L', P') \<Longrightarrow> next_base_addr L' = next_base_addr L \<and> main_path L' = main_path L"
  by (auto simp: Relocate_def res_simps)

lemma loader_ok_visit:
  assumes "loader_ok os path L" and "LoadDependingLibs os root (L, P) = Inr (L1, P1)"
    and "Relocate lc (L1, P1) = Inr (L2, P2)" and "binaries L = [] \<Longrightarrow> root = main_path L"
  shows "loader_ok os path L2"
proof -
  note r = Relocate_fields [OF assms(3)] Relocate_place [OF assms(3)]
  from LoadDependingLibs_order [OF assms(2)] obtain b bs where
    bs: "binaries L1 = binaries L @ b # bs" "bin_path b = root"
      "loaded L1 = insert (filename root) (loaded L) \<union> (\<Union>d \<in> set (b # bs). set (neededs d))" by blast
  have "main_path L1 = path" using load_params.libs_rel [OF assms(2)] assms(1) by (simp add: loader_ok_def)
  moreover have "bin_path d = path" if "binaries L1 = d # ds" for d ds
    using that bs assms(1,4) by (cases "binaries L") (auto simp: loader_ok_def)
  moreover have "(\<Union>b \<in> set (binaries L1). set (neededs b)) \<subseteq> loaded L1"
    using bs assms(1) by (auto simp: loader_ok_def)
  moreover have "\<forall>n \<in> loaded L1. served os (binaries L1) n"
    using assms(1) by (intro LoadDependingLibs_serves [OF assms(2)]) (simp add: loader_ok_def)
  moreover have "placed_from 0x1400000 (binaries L1) (next_base_addr L1)"
    using placement.libs_rel [OF assms(2)] assms(1) by (auto simp: loader_ok_def placed_from_append)
  ultimately show ?thesis using r by (simp add: loader_ok_def)
qed

interpretation sound: session_invariant os lc path argv envp P0 "\<lambda>s. loader_ok os path (fst s)"
  for os lc path argv envp P0
proof (unfold_locales, goal_cases)
  case (1 L P)
  with new_loader [OF 1] show ?case by (simp add: loader_ok_def)
next
  case (2 L P root L1 P1 L2 P2)
  then show ?case by (auto intro: loader_ok_visit)
qed simp

text \<open>The process stays well formed if the kernel maps into free memory only.\<close>

interpretation typed: session_invariant os lc path argv envp P0
  "\<lambda>s. mmap_fresh os \<and> proc_wf P0 \<longrightarrow> proc_wf (snd s)" for os lc path argv envp P0
proof (unfold_locales, goal_cases)
  case (1 L P)
  then obtain m where w: "write_sloader_dummy_to_secure_tls_space (tls_block lc) (mem P0) = Inr m"
    and P: "P = P0\<lparr>mem := m, fds := fds P0 - 1\<rparr>"
    by (auto simp: InitializeDynLoader_def DynLoader_ctor_def res_simps)
  from proc_wf_mem [of P0 m] write_secure_mapped [OF w] show ?case by (simp add: P)
next
  case (2 L P root L1 P1 L2 P2)
  then show ?case using load_wf.libs_rel [OF 2(2)] Relocate_wf(3) [OF 2(3)] by simp
next
  case (3 L P P')
  then show ?case by simp
qed

section \<open>Only more files\<close>

lemma session_step_extends:
  assumes "session_step os lc (Some L, P) g'"
  shows "\<exists>L' P' new. g' = (Some L', P') \<and> binaries L' = binaries L @ new"
  using assms
proof cases
  case (dlopen fname flags h)
  from dlopen show ?thesis
  proof (cases rule: dlopen_visits)
    case (2 L0 P00 f root L1 P1 L2 P2)
    with placement.libs_rel [OF 2(4)] Relocate_fields(1) [OF 2(5)] show ?thesis by auto
  qed auto
qed auto

lemma session_extends:
  "session_steps os lc (Some L, P) g' \<Longrightarrow>
    \<exists>L' P' new. g' = (Some L', P') \<and> binaries L' = binaries L @ new"
proof (induction rule: rtranclp_induct)
  case base
  then show ?case by simp
next
  case (step g1 g2)
  then obtain L1 P1 new where "g1 = (Some L1, P1)" "binaries L1 = binaries L @ new" by blast
  with session_step_extends step(2) show ?case by fastforce
qed

lemma search_bins_append:
  "search_bins m name p i (bs @ cs) = rbind (search_bins m name p i bs) (\<lambda>r.
     case r of Some ij \<Rightarrow> Inr (Some ij) | None \<Rightarrow> search_bins m name p (i + length bs) cs)"
proof (induction bs arbitrary: i)
  case Nil
  then show ?case by simp
next
  case (Cons b bs)
  then show ?case by (auto simp: rbind_assoc intro!: rbind_cong split: option.splits)
qed

text \<open>The names of the symbols of all loaded files read the same.\<close>

definition same_names :: "ELFBinary list \<Rightarrow> memory \<Rightarrow> memory \<Rightarrow> bool" where
  "same_names bs m m' \<longleftrightarrow> (\<forall>b \<in> set bs. \<forall>s \<in> set (symtabs b). sym_name m' b s = sym_name m b s)"

lemma search_syms_same:
  "\<forall>s \<in> set ss. sym_name m' b s = sym_name m b s \<Longrightarrow>
    search_syms m' name p b j ss = search_syms m name p b j ss"
  by (induction ss arbitrary: j) (auto intro!: rbind_cong)

lemma search_bins_same:
  "same_names bs m m' \<Longrightarrow> search_bins m' name p i bs = search_bins m name p i bs"
  by (induction bs arbitrary: i) (auto simp: same_names_def search_syms_same intro!: rbind_cong split: option.split)

lemma SearchSym_defined_stable:
  assumes "SearchSym m L name skip_main = Inr (Some (i, j))"
    and "sym_defined (symtabs (binaries L ! i) ! j)"
    and "binaries L' = binaries L @ new" and "same_names (binaries L) m m'" and "binaries L \<noteq> []"
  shows "SearchSym m' L' name skip_main = Inr (Some (i, j))"
proof -
  define i0 :: nat where "i0 = (if skip_main then 1 else 0)"
  let ?bs = "drop i0 (binaries L)"
  have "search_bins m name sym_defined i0 ?bs = Inr (Some (i, j))"
  proof (rule ccontr)
    assume n: "search_bins m name sym_defined i0 ?bs \<noteq> Inr (Some (i, j))"
    from assms(1) obtain r where r: "search_bins m name sym_defined i0 ?bs = Inr r"
      and w: "(case r of Some ij \<Rightarrow> Inr (Some ij) | None \<Rightarrow> search_bins m name sym_weak_undef i0 ?bs)
        = Inr (Some (i, j))"
      unfolding SearchSym_def Let_def i0_def [symmetric] by (auto simp: res_simps)
    with n have "search_bins m name sym_weak_undef i0 ?bs = Inr (Some (i, j))"
      by (cases r) auto
    from search_bins_spec [OF this] have "sym_weak_undef (symtabs (binaries L ! i) ! j)"
      by (auto simp: first_match_def first_sym_def sym_at_def)
    with assms(2) show False by (simp add: sym_weak_undef_def sym_defined_def)
  qed
  moreover have "i0 \<le> length (binaries L)" using assms(5) by (cases "binaries L") (auto simp: i0_def)
  then have "drop i0 (binaries L') = ?bs @ new" by (simp add: assms(3))
  moreover have "same_names ?bs m m'"
    using assms(4) set_drop_subset [of i0 "binaries L"] by (auto simp: same_names_def)
  ultimately have "search_bins m' name sym_defined i0 (drop i0 (binaries L')) = Inr (Some (i, j))"
    by (simp add: search_bins_append search_bins_same)
  then show ?thesis unfolding SearchSym_def Let_def i0_def [symmetric] by simp
qed

section \<open>\<open>main\<close> starts a session\<close>

text \<open>Constructors reach the loader through its interface only.\<close>

definition api_only :: "os \<Rightarrow> libc \<Rightarrow> foreign \<Rightarrow> bool" where
  "api_only os lc call \<longleftrightarrow> (\<forall>f L P L' P'. call f (L, P) = Inr (L', P') \<longrightarrow>
     session_steps os lc (Some L, P) (Some L', P'))"

abbreviation global_of :: "machine \<Rightarrow> global" where
  "global_of s \<equiv> (Some (loader s), process s)"

lemma call_init_session:
  "api_only os lc call \<Longrightarrow> call_init call f s = Inr s' \<Longrightarrow>
    session_steps os lc (global_of s) (global_of s')"
  by (auto simp: api_only_def call_init_def res_simps)

lemma init_array_loop_session:
  assumes "api_only os lc call"
  shows "init_array_loop call b js s = Inr s' \<Longrightarrow> session_steps os lc (global_of s) (global_of s')"
proof (induction js arbitrary: s)
  case Nil
  then show ?case by simp
next
  case (Cons j js)
  then show ?case
    by (auto simp: res_simps split: if_splits dest!: call_init_session [OF assms] intro: rtranclp_trans)
qed

lemma init_binary_session:
  assumes "api_only os lc call" and "init_binary call s i = Inr s'"
  shows "session_steps os lc (global_of s) (global_of s')"
  using assms(2)
  by (auto simp: init_binary_def Let_def res_simps split: if_splits
      dest!: call_init_session [OF assms(1)] init_array_loop_session [OF assms(1)]
      intro: rtranclp_trans)

interpretation ctor_loop: checked_loop "init_binary call"
  "\<lambda>s. api_only os lc call \<and> session_steps os lc g (global_of s)" for call os lc g
  by unfold_locales (auto intro: rtranclp_trans init_binary_session)

lemma Execute_session:
  assumes "Execute os call T c_strs argv envp rsp s = Inr (s', rsp', rip)" and "api_only os lc call"
  shows "session_steps os lc (global_of s) (global_of s')"
proof -
  from assms(1) obtain s1 m off m' ws where i: "init_all call s = Inr s1"
    and t: "init_tls T (binaries (loader s1)) (mem (process s1), tls_offset s1) = Inr (m, off)"
    and p: "foldR pushq (m, rsp) ws = Inr (m', rsp')"
    and s': "s' = s1\<lparr>process := (process s1)\<lparr>mem := m'\<rparr>, tls_offset := off\<rparr>"
    by (auto simp: Execute_def ExecuteCore_def build_stack_words res_simps Let_def)
  from i have "session_steps os lc (global_of s) (global_of s1)"
    unfolding init_all_def using ctor_loop.loop_inv [of os lc call "global_of s" s] assms(2) by blast
  moreover have "m' x = None \<longleftrightarrow> mem (process s1) x = None" for x
  proof -
    from t obtain n where "foldR (init_tls_one T) (mem (process s1), tls_offset s1) (binaries (loader s1))
      = Inr (m, off)" by (auto simp: init_tls_def res_simps)
    from tls_map_loop.loop_inv [OF _ this, of x] push_loop.loop_inv [OF _ p, of x] show ?thesis by simp
  qed
  then have "session_step os lc (global_of s1) (global_of s')"
    by (auto simp: s' intro!: own proc_wf_mem)
  ultimately show ?thesis by (rule rtranclp.rtrancl_into_rtrancl)
qed

text \<open>The run of \<open>main\<close> taken apart.\<close>

lemma main_parts:
  assumes "sloader_main os lc call c_strs rsp (prog # argv0 # rest) envp P = Inr (s', rsp', rip)"
  obtains fullpath etype P0 L1 P1 where "program_path os argv0 = Inr fullpath"
    "GetEType os fullpath P = Inr (etype, P0)"
    "session_start os lc fullpath (argv0 # rest) envp P0 (Some L1, P1)"
    "args L1 = argv0 # rest" "envs L1 = envp"
    "Execute os call (tls_block lc) c_strs (argv0 # rest) envp rsp
       \<lparr>loader = L1, process = P1, tls_offset = sloader_tls_offset, called = []\<rparr> = Inr (s', rsp', rip)"
proof -
  let ?argv = "argv0 # rest"
  from assms obtain fullpath etype P0 g L where path: "program_path os argv0 = Inr fullpath"
    and et: "GetEType os fullpath P = Inr (etype, P0)"
    and init: "InitializeDynLoader lc fullpath envp ?argv (None, P0) = Inr g"
    and g: "GetDynLoader g = Inr L"
    and run: "Run os lc call c_strs rsp \<lparr>loader = L, process = snd g,
      tls_offset = sloader_tls_offset, called = []\<rparr> = Inr (s', rsp', rip)"
    by (fastforce simp: sloader_main_def res_simps split: if_splits)
  from g init have init: "InitializeDynLoader lc fullpath envp ?argv (None, P0) = Inr (Some L, snd g)"
    by (cases g) (auto simp: GetDynLoader_def split: option.splits)
  then have L: "main_path L = fullpath" "args L = ?argv" "envs L = envp"
    by (auto simp: InitializeDynLoader_def DynLoader_ctor_def res_simps)
  from run L(1) obtain L1 P1 L2 P2 where load: "LoadDependingLibs os fullpath (L, snd g) = Inr (L1, P1)"
    and rel: "Relocate lc (L1, P1) = Inr (L2, P2)"
    and ex: "Execute os call (tls_block lc) c_strs (args L2) (envs L2) rsp
      \<lparr>loader = L2, process = P2, tls_offset = sloader_tls_offset, called = []\<rparr> = Inr (s', rsp', rip)"
    by (auto simp: Run_def res_simps)
  have "args L2 = ?argv" "envs L2 = envp"
    using Relocate_fields(3,4) [OF rel] load_params.libs_rel [OF load] L by simp_all
  with that path et ex session_start.intros [OF init load rel] show ?thesis by simp
qed

text \<open>What the invariant gives of the loaded files.\<close>

lemma loader_sound:
  assumes "in_session os lc path argv envp P0 (Some L, P)"
  shows "\<exists>b bs. binaries L = b # bs \<and> bin_path b = path \<and>
    (\<forall>d \<in> set (b # bs). relocated L (path_key (bin_path d)) \<and>
      (\<forall>n \<in> set (neededs d). n \<in> loaded L \<and> served os (b # bs) n))"
proof -
  from sound.session_inv [OF assms] have "binaries L \<noteq> []" and ok: "loader_ok os path L" by simp_all
  then obtain b bs where bs: "binaries L = b # bs" by (cases "binaries L") auto
  with ok have "bin_path b = path" "(\<Union>d \<in> set (b # bs). set (neededs d)) \<subseteq> loaded L"
    "\<forall>n \<in> loaded L. served os (b # bs) n" "\<forall>d \<in> set (b # bs). relocated L (path_key (bin_path d))"
    unfolding loader_ok_def by auto
  with bs show ?thesis by (intro exI [of _ b] exI [of _ bs]) blast
qed

section \<open>Properties\<close>

text \<open>
  C12: the loader is sound at every moment of a session. From the end of \<open>Run\<close>'s loading
  on, whatever the program and its constructors do and however often they call
  \<open>dlopen\<close>, the first file is the program, every file is marked as relocated, and every
  name a loaded file needs is in the loaded set and served: it is the dynamic linker or libc,
  the name of a loaded file, or \<open>FindLibrary\<close> found a loaded file for it.
\<close>

theorem session_sound:
  assumes "in_session os lc path argv envp P0 (Some L, P)"
  shows "\<exists>b bs. binaries L = b # bs \<and> bin_path b = path \<and>
    (\<forall>d \<in> set (b # bs). relocated L (path_key (bin_path d)) \<and>
      (\<forall>n \<in> set (neededs d). n \<in> loaded L \<and> served os (b # bs) n))"
  using assms by (rule loader_sound)



text \<open>
  C15: a binding does not change. If \<open>dlsym\<close> finds a definition, it returns the same
  address at every later moment of the session, whatever is opened in between, as long as the
  names of the files loaded at the time of the first call are not overwritten.
\<close>

theorem dlsym_stable:
  assumes "SearchSym (mem P) L symbol False = Inr (Some (i, j))"
    and "sym_defined (symtabs (binaries L ! i) ! j)" and "binaries L \<noteq> []"
    and "session_steps os lc (Some L, P) (Some L', P')" and "same_names (binaries L) (mem P) (mem P')"
  shows "\<exists>a. sloader_dlsym handle symbol (Some L, P) = Inr a \<and>
    sloader_dlsym handle' symbol (Some L', P') = Inr a"
proof -
  from session_extends [OF assms(4)] obtain new where new: "binaries L' = binaries L @ new" by auto
  from SearchSym_resolves [OF assms(1)] have i: "i < length (binaries L)" "j < length (symtabs (binaries L ! i))"
    by (auto simp: resolves_def first_match_def first_sym_def sym_at_def)
  note SearchSym_defined_stable [OF assms(1,2) new assms(5,3)]
  with assms(1) i new show ?thesis
    by (simp add: sloader_dlsym_def GetDynLoader_def GetSymbolAddr_def CHECK_def nth_append)
qed

section \<open>The properties on a sample\<close>

text \<open>The program of the sample run opens its library a second time.\<close>

lemma sample_session:
  "\<exists>L P b c d. in_session start_host start_libc ''/a'' [''/a''] [] (run_proc header_mem start_vmas 8 []) (Some L, P) \<and>
     binaries L = [b, c, d] \<and> plain_bin ''/a'' 0x1400000 [''b''] b \<and>
     plain_bin ''/lib/b'' 0x1800000 [] c \<and> plain_bin ''/lib/b'' 0x1c00000 [] d"
proof -
  obtain P0 L1 P1 L2 b c where i: "InitializeDynLoader start_libc ''/a'' [] [''/a'']
      (None, run_proc header_mem start_vmas 8 []) = Inr (Some start_loader, P0)"
    and l: "LoadDependingLibs start_host ''/a'' (start_loader, P0) = Inr (L1, P1)"
    and r: "Relocate start_libc (L1, P1) = Inr (L2, P1)"
    and L2: "vmas P1 = lib_vmas" "fds P1 = 5" "binaries L2 = [b, c]" "next_base_addr L2 = 0x1c00000"
    and b: "plain_bin ''/a'' 0x1400000 [''b''] b" "plain_bin ''/lib/b'' 0x1800000 [] c"
    using start_loaded by (elim exE conjE) (rule that; assumption)
  have P1: "P1 = run_proc (mem P1) lib_vmas (Suc 4) (map_file P1)" using L2(1,2) by simp
  obtain d m f where cp: "load_binary start_host ''/lib/b'' (L2, P1) =
      Inr (d, L2\<lparr>binaries := [b, c, d], next_base_addr := 0x2000000\<rparr>, run_proc m copy_vmas 4 f)"
    and d: "plain_bin ''/lib/b'' 0x1c00000 [] d"
    using start_load_copy [OF L2(4), of "mem P1" 4 "map_file P1"] L2(3) unfolding P1 [symmetric] by auto
  let ?L = "L2\<lparr>binaries := [b, c, d], next_base_addr := 0x2000000, loaded := insert (filename ''/lib/b'') (loaded L2)\<rparr>"
  have l2: "LoadDependingLibs start_host ''/lib/b'' (L2, P1) = Inr (?L, run_proc m copy_vmas 4 f)"
    using d by (simp add: LoadDependingLibs_def cp pending_of_def plain_bin_def)
  obtain rel where r2: "Relocate start_libc (?L, run_proc m copy_vmas 4 f) =
      Inr (?L\<lparr>relocated := rel\<rparr>, run_proc m copy_vmas 4 f)"
    using plain_relocate [of ?L start_libc "run_proc m copy_vmas 4 f"] b d by (auto simp: plain_bin_def)
  have f: "FindLibrary start_host (fds P1) ''/lib/b'' None None = Inr ''/lib/b''"
    by (simp add: FindLibrary_def is_absolute_def slash_def)
  have "sloader_dlopen start_host start_libc (Some ''/lib/b'') 0 (Some L2, P1) =
      Inr (0xdeadbeefdeadbeef, (Some (?L\<lparr>relocated := rel\<rparr>), run_proc m copy_vmas 4 f))"
    using l2 r2 f by (simp add: sloader_dlopen_def GetDynLoader_def contains_def)
  then have "session_step start_host start_libc (Some L2, P1)
      (Some (?L\<lparr>relocated := rel\<rparr>), run_proc m copy_vmas 4 f)" by (rule dlopen)
  then have "session_steps start_host start_libc (Some L2, P1)
      (Some (?L\<lparr>relocated := rel\<rparr>), run_proc m copy_vmas 4 f)" by (rule r_into_rtranclp)
  with session_start.intros [OF i l r]
  have "in_session start_host start_libc ''/a'' [''/a''] [] (run_proc header_mem start_vmas 8 [])
      (Some (?L\<lparr>relocated := rel\<rparr>), run_proc m copy_vmas 4 f)" by (rule in_session.intros)
  moreover have "binaries (?L\<lparr>relocated := rel\<rparr>) = [b, c, d]" by simp
  ultimately show ?thesis using b d by blast
qed

theorem session_sound_witness:
  "\<exists>L P b c d. in_session start_host start_libc ''/a'' [''/a''] [] (run_proc header_mem start_vmas 8 []) (Some L, P) \<and>
     binaries L = [b, c, d] \<and> bin_path b = ''/a'' \<and> relocated L (path_key (bin_path d)) \<and>
     ''b'' \<in> set (neededs b) \<and> ''b'' \<in> loaded L \<and> served start_host [b, c, d] ''b''"
proof -
  obtain L P b c d where s: "in_session start_host start_libc ''/a'' [''/a''] []
      (run_proc header_mem start_vmas 8 []) (Some L, P)" and bs: "binaries L = [b, c, d]"
    and n: "neededs b = [''b'']" using sample_session by (auto simp: plain_bin_def)
  from session_sound [OF s] bs have "bin_path b = ''/a''" "relocated L (path_key (bin_path d))"
    "\<forall>n \<in> set (neededs b). n \<in> loaded L \<and> served start_host [b, c, d] n" by auto
  with s bs n show ?thesis by auto
qed



theorem dlsym_stable_witness:
  "session_steps start_host no_libc (Some plt_loader, plt_proc) (Some plt_loader, plt_proc\<lparr>fds := 3\<rparr>) \<and>
   (\<exists>a. sloader_dlsym 1 ''f'' (Some plt_loader, plt_proc) = Inr a \<and>
      sloader_dlsym 2 ''f'' (Some plt_loader, plt_proc\<lparr>fds := 3\<rparr>) = Inr a)"
proof -
  have "session_step start_host no_libc (Some plt_loader, plt_proc) (Some plt_loader, plt_proc\<lparr>fds := 3\<rparr>)"
    by (rule own) simp
  then have st: "session_steps start_host no_libc (Some plt_loader, plt_proc) (Some plt_loader, plt_proc\<lparr>fds := 3\<rparr>)"
    by (rule r_into_rtranclp)
  have d: "sym_defined (symtabs (binaries plt_loader ! 1) ! 0)" "binaries plt_loader \<noteq> []"
    by (simp_all add: plt_loader_def f_bin_def f_sym_def sym_defined_def)
  from dlsym_stable [OF plt_SearchSym d st] st show ?thesis by (simp add: same_names_def)
qed

end
