(* ===== verification/Exec_Loader.thy ===== *)
theory Exec_Loader
  imports Elf_Binary Start_Stack Sample_Host
begin

text \<open>
  \<open>class ExecLoader\<close> of \<open>exec_loader.h\<close>, the loader for statically linked,
  position-dependent executables. Its members are pointers into the mapping of the file, which
  every use reads again.
\<close>

section \<open>The model\<close>

record ExecLoader =
  ex_head :: addr
  ex_size :: u64
  ex_filename :: string
  ex_phdrs :: "addr list"
  ex_ph_dynamic :: addr
  ex_memories :: "(addr \<times> u32) list"

text \<open>The second loop of the constructor: at most one \<open>PT_DYNAMIC\<close> header.\<close>

definition find_dynamic :: "memory \<Rightarrow> addr \<Rightarrow> addr \<Rightarrow> addr res" where
  "find_dynamic m ph_dynamic ph =
     rbind (read_Phdr m ph) (\<lambda>h.
       if p_type h = PT_DYNAMIC then rbind (CHECK (ph_dynamic = 0)) (\<lambda>_. Inr ph)
       else Inr ph_dynamic)"

definition ExecLoader_ctor :: "memory \<Rightarrow> string \<Rightarrow> addr \<Rightarrow> u64 \<Rightarrow> ExecLoader res" where
  "ExecLoader_ctor m file_name head_arg size_arg =
     rbind (read_Ehdr m head_arg) (\<lambda>eh.
     let phdrs = map (\<lambda>i. head_arg + e_phoff eh + scast (of_nat i * ucast (e_phentsize eh) :: u32))
                   [0..<unat (e_phnum eh)]
     in rbind (foldR (find_dynamic m) 0 phdrs) (\<lambda>ph_dynamic.
        Inr \<lparr>ex_head = head_arg, ex_size = size_arg, ex_filename = file_name, ex_phdrs = phdrs,
             ex_ph_dynamic = ph_dynamic, ex_memories = []\<rparr>))"

definition MakeExecLoader :: "os \<Rightarrow> path \<Rightarrow> string \<Rightarrow> proc \<Rightarrow> (ExecLoader \<times> proc) res" where
  "MakeExecLoader os filepath argv0 P =
     (case open_file os filepath P of
        None \<Rightarrow> Inl (ExitWith 1)
      | Some (content, P) \<Rightarrow>
          (let size = of_nat (length content) :: u64
           in rbind (CHECK (size > 8 + 16)) (\<lambda>_.
              let mapped_size = page_ceil size;
                  (p, P) = mmap_file os content mapped_size
                             (PROT_READ OR PROT_WRITE OR PROT_EXEC) P
              in rbind (CHECK (p \<noteq> MAP_FAILED)) (\<lambda>_.
                 rbind (ExecLoader_ctor (mem P) argv0 p mapped_size) (\<lambda>x. Inr (x, P))))))"

text \<open>One segment; the size kept for \<open>Unload\<close> is cut to 32 bits.\<close>

definition exec_load_segment :: "os \<Rightarrow> ExecLoader \<times> proc \<Rightarrow> addr \<Rightarrow> (ExecLoader \<times> proc) res" where
  "exec_load_segment os xP ph_addr =
     (let (x, P) = xP
      in rbind (read_Phdr (mem P) ph_addr) (\<lambda>ph.
         if p_type ph \<noteq> PT_LOAD then Inr (x, P)
         else
           let mmap_start = page_floor (p_vaddr ph);
               mmap_end = page_ceil (p_vaddr ph + p_memsz ph);
               (p, P) = mmap_anon os mmap_start (mmap_end - mmap_start)
                          (PROT_READ OR PROT_WRITE OR PROT_EXEC) P
           in rbind (CHECK (mmap_start = p)) (\<lambda>_.
              rbind (CHECK (mmap_start \<le> p_vaddr ph)) (\<lambda>_.
              rbind (CHECK (p_vaddr ph + p_memsz ph < mmap_end)) (\<lambda>_.
              rbind (memcpy (mem P) (p_vaddr ph) (ex_head x + p_offset ph) (p_filesz ph)) (\<lambda>m.
              Inr (x\<lparr>ex_memories := ex_memories x @ [(p, ucast (p_memsz ph))]\<rparr>,
                   P\<lparr>mem := m\<rparr>)))))))"

definition exec_Load :: "os \<Rightarrow> ExecLoader \<times> proc \<Rightarrow> (ExecLoader \<times> proc) res" where
  "exec_Load os xP = foldR (exec_load_segment os) xP (ex_phdrs (fst xP))"

text \<open>
  munmap(2): the pages that hold any of the bytes go, and the areas are cut around them. A
  length of 0 is an error without effect.
\<close>

definition area_between :: "nat \<Rightarrow> nat \<Rightarrow> u32 \<Rightarrow> vma list" where
  "area_between lo hi prot = (if lo < hi then [(of_nat lo, of_nat (hi - lo), prot)] else [])"

definition cut_area :: "addr \<Rightarrow> u64 \<Rightarrow> vma \<Rightarrow> vma list" where
  "cut_area p n v =
     (case v of (s, k, prot) \<Rightarrow>
        area_between (unat s) (min (unat s + unat k) (unat p)) prot @
        area_between (max (unat s) (unat p + unat n)) (unat s + unat k) prot)"

definition munmap :: "addr \<Rightarrow> u64 \<Rightarrow> proc \<Rightarrow> proc" where
  "munmap p n P =
     P\<lparr>mem := (\<lambda>a. if unat (a - p) < unat (page_ceil n) then None else mem P a),
       vmas := (if n = 0 then vmas P else concat (map (cut_area p (page_ceil n)) (vmas P)))\<rparr>"

definition Unload :: "ExecLoader \<Rightarrow> proc \<Rightarrow> proc" where
  "Unload x P = fold (\<lambda>(p, n). munmap p (ucast n)) (ex_memories x) P"

definition exec_Relocate :: "ExecLoader \<times> proc \<Rightarrow> ExecLoader \<times> proc" where
  "exec_Relocate xP = xP"

text \<open>The array of \<open>Execute\<close>; \<open>fname\<close> is the address of the characters of the file name.\<close>

definition build_exec_stack :: "(u64 \<times> u64) list \<Rightarrow> u64 list \<Rightarrow> u64 \<Rightarrow> frame" where
  "build_exec_stack auxs envp fname =
     (let stack_num = 4 + 2 + 2 * length auxs + 1 + length envp + 3;
          st = (replicate stack_num 0, 0);
          st = skip 4 st;
          st = skip 2 st;
          st = fold put_aux auxs st;
          st = skip 1 st;
          st = fold (\<lambda>i. put (envp ! i)) [0..<length envp] st;
          st = skip 1 st;
          st = put fname st
      in put 1 st)"

definition exec_Execute ::
  "os \<Rightarrow> (string list \<Rightarrow> u64 list) \<Rightarrow> u64 \<Rightarrow> string list \<Rightarrow> addr \<Rightarrow> ExecLoader \<times> proc \<Rightarrow>
   (memory \<times> addr \<times> addr) res" where
  "exec_Execute os c_strs fname envs_arg rsp xP =
     rbind (CHECK (os_getauxval os AT_RANDOM \<noteq> 0)) (\<lambda>_.
     let auxs = aux_tvs os;
         stack_num = 4 + 2 + 2 * length auxs + 1 + length envs_arg + 3;
         (stack, stack_index) = build_exec_stack auxs (c_strs envs_arg) fname
     in rbind (CHECK (stack_index = stack_num)) (\<lambda>_.
        rbind (read_Ehdr (mem (snd xP)) (ex_head (fst xP))) (\<lambda>eh.
        ExecuteCore stack (e_entry eh) (mem (snd xP), rsp))))"

section \<open>The image of a static executable\<close>

text \<open>
  A segment is placed as \<open>ELFBinary::Load\<close> would place it for a file based at 0; only the
  protection of the area differs. So the lemmas on one segment carry over.
\<close>

definition static_bin :: "ExecLoader \<Rightarrow> ELFBinary" where
  "static_bin x = new_ELFBinary [] (ex_head x)
     \<lparr>e_type = ET_EXEC, e_entry = 0, e_phoff = 0, e_phentsize = 0, e_phnum = 0\<rparr>"

lemma static_bin_sel [simp]: "base_addr (static_bin x) = 0" "file_base_addr (static_bin x) = ex_head x"
  by (simp_all add: static_bin_def new_ELFBinary_def)

lemma proc_wf_prot:
  "proc_wf (P\<lparr>mem := m, vmas := vs @ [(p, n, prot)]\<rparr>) = proc_wf (P\<lparr>mem := m, vmas := vs @ [(p, n, prot')]\<rparr>)"
  by (simp add: proc_wf_def in_area_def)

lemma mmap_with_prot:
  "mmap_with os f hint n prot P = (p, P1) \<Longrightarrow> \<exists>P2. mmap_with os f hint n prot' P = (p, P2) \<and>
    mem P2 = mem P1 \<and> (proc_wf P2 \<longleftrightarrow> proc_wf P1)"
  by (auto simp: mmap_with_def proc_wf_prot [where prot = prot and prot' = prot'] split: if_splits option.splits)

lemma exec_segment_as_load:
  assumes "exec_load_segment os (x, P) a = Inr (x', P')" and "read_Phdr (mem P) a = Inr ph"
    and "p_type ph = PT_LOAD"
  shows "\<exists>b P2. load_segment os (static_bin x, P) ph = Inr (b, P2) \<and> mem P2 = mem P' \<and>
    (proc_wf P2 \<longleftrightarrow> proc_wf P') \<and> ex_head x' = ex_head x"
proof -
  let ?s = "page_floor (p_vaddr ph)" and ?e = "page_ceil (p_vaddr ph + p_memsz ph)"
  obtain p P1 where mm: "mmap_with os (\<lambda>_. 0) ?s (?e - ?s) (PROT_READ OR PROT_WRITE OR PROT_EXEC) P = (p, P1)"
    by fastforce
  with assms obtain m where c: "p = ?s" "?s \<le> p_vaddr ph" "p_vaddr ph + p_memsz ph < ?e"
    "memcpy (mem P1) (p_vaddr ph) (ex_head x + p_offset ph) (p_filesz ph) = Inr m"
    "P' = P1\<lparr>mem := m\<rparr>" "ex_head x' = ex_head x"
    by (auto simp: exec_load_segment_def mmap_anon_def Let_def res_simps)
  from mmap_with_prot [OF mm] obtain P2 where P2:
    "mmap_with os (\<lambda>_. 0) ?s (?e - ?s) (load_flags ph) P = (p, P2)" "mem P2 = mem P1"
    "proc_wf P2 \<longleftrightarrow> proc_wf P1" by blast
  have w: "m y = None \<longleftrightarrow> mem P1 y = None" for y using c(4) by (rule memcpy_mapped)
  have wf: "proc_wf (P1\<lparr>mem := m\<rparr>) = proc_wf P1" "proc_wf (P2\<lparr>mem := m\<rparr>) = proc_wf P2"
    using w P2(2) by (simp_all add: proc_wf_def)
  have o: "load_segment os (static_bin x, P) ph =
      Inr ((static_bin x)\<lparr>end_addr := ?e\<rparr>, P2\<lparr>map_file := map_file P2 @
        map_line (bin_path (static_bin x)) ph ?s ?e, mem := m\<rparr>)"
    using c P2 assms(3)
    by (simp add: load_segment_def seg_start_def seg_end_def mmap_anon_def CHECK_def less_imp_le Let_def)
  have "proc_wf (P2\<lparr>map_file := f, mem := m\<rparr>) = proc_wf P'" for f
    using wf P2(3) c(5) by (simp add: proc_wf_def)
  with o c(5,6) show ?thesis by simp
qed

lemma read_struct_later:
  assumes "read_struct f n m a = Inr v" and "m \<subseteq>\<^sub>m m'"
  shows "read_struct f n m' a = Inr v"
proof -
  from assms(1) obtain bs where bs: "read_bytes m a n = Inr bs" "v = f bs"
    by (auto simp: read_struct_def res_simps)
  have "read_bytes m' a n = Inr bs"
    using bs(1) map_le_at [OF assms(2)] by (auto simp: read_bytes_iff)
  with bs(2) show ?thesis by (simp add: read_struct_def)
qed

lemmas read_Phdr_later = read_struct_later [where f = Phdr_of and n = sizeof_Phdr, folded read_Phdr_def]
  and read_Ehdr_later = read_struct_later [where f = Ehdr_of and n = sizeof_Ehdr, folded read_Ehdr_def]

lemma exec_loop_effect:
  assumes "mmap_fresh os"
  shows "foldR (exec_load_segment os) (x, P) as = Inr (x', P') \<Longrightarrow> proc_wf P \<Longrightarrow>
    \<forall>a \<in> set as. \<exists>ph. read_Phdr (mem P) a = Inr ph \<and> seg_ok 0 ph \<Longrightarrow>
    proc_wf P' \<and> mem P \<subseteq>\<^sub>m mem P' \<and> (\<forall>a \<in> set as. \<forall>ph. read_Phdr (mem P) a = Inr ph \<longrightarrow>
      seg_placed (mem P) (mem P') (static_bin x) ph)"
proof (induction as arbitrary: x P)
  case Nil
  then show ?case by simp
next
  case (Cons a as)
  then obtain x1 P1 where st: "exec_load_segment os (x, P) a = Inr (x1, P1)"
    and rest: "foldR (exec_load_segment os) (x1, P1) as = Inr (x', P')" by (auto simp: res_simps)
  from Cons.prems(3) obtain ph where ph: "read_Phdr (mem P) a = Inr ph" "seg_ok 0 ph" by auto
  have one: "proc_wf P1 \<and> mem P \<subseteq>\<^sub>m mem P1 \<and> seg_placed (mem P) (mem P1) (static_bin x) ph \<and>
      ex_head x1 = ex_head x"
  proof (cases "p_type ph = PT_LOAD")
    case True
    from exec_segment_as_load [OF st ph(1) True] obtain b P2 where
      l: "load_segment os (static_bin x, P) ph = Inr (b, P2)"
      and P2: "mem P2 = mem P1" "proc_wf P2 \<longleftrightarrow> proc_wf P1" "ex_head x1 = ex_head x" by blast
    with load_segment_effect [OF assms Cons.prems(2) l] load_segment_wf [OF assms Cons.prems(2) l] ph(2)
    show ?thesis by simp
  next
    case False
    with st ph have "x1 = x" "P1 = P" by (simp_all add: exec_load_segment_def)
    with False Cons.prems(2) show ?thesis by (simp add: seg_placed_def)
  qed
  have later: "read_Phdr (mem P1) d = Inr q" if "read_Phdr (mem P) d = Inr q" for d q
    using read_Phdr_later that one by blast
  have "static_bin x1 = static_bin x" using one by (simp add: static_bin_def)
  with Cons.IH [OF rest] Cons.prems(3) one later
  have IH: "proc_wf P'" "mem P1 \<subseteq>\<^sub>m mem P'" "\<forall>d \<in> set as. \<forall>q. read_Phdr (mem P1) d = Inr q \<longrightarrow>
      seg_placed (mem P1) (mem P') (static_bin x) q" by fastforce+
  have "seg_placed (mem P) (mem P') (static_bin x) q" if "d \<in> set as" "read_Phdr (mem P) d = Inr q" for d q
    using IH(3) later [OF that(2)] that(1) one seg_placed_earlier by blast
  with IH one ph(1) show ?case by (auto intro: map_le_trans seg_placed_later)
qed

section \<open>Unmapping\<close>

lemma in_area_range:
  "unat s + unat k < 2 ^ 64 \<Longrightarrow> in_area a (s, k, r) \<longleftrightarrow> unat s \<le> unat a \<and> unat a < unat s + unat k"
  by (simp add: in_area_def unat_offset_range)

lemma area_between_in:
  assumes "hi < 2 ^ 64"
  shows "(\<exists>w \<in> set (area_between lo hi r). in_area a w) \<longleftrightarrow> lo \<le> unat a \<and> unat a < hi"
    and "\<forall>(t, k, _) \<in> set (area_between lo hi r). unat t + unat k < 2 ^ 64"
proof -
  have u: "unat (of_nat lo :: addr) = lo" "unat (of_nat (hi - lo) :: u64) = hi - lo" if "lo < hi"
    using that assms unat_of_nat_u64 [of lo] unat_of_nat_u64 [of "hi - lo"] by simp_all
  then show "(\<exists>w \<in> set (area_between lo hi r). in_area a w) \<longleftrightarrow> lo \<le> unat a \<and> unat a < hi"
    using assms in_area_range [of "of_nat lo" "of_nat (hi - lo)" a r]
    by (cases "lo < hi") (simp_all add: area_between_def)
  show "\<forall>(t, k, _) \<in> set (area_between lo hi r). unat t + unat k < 2 ^ 64"
    using assms u by (simp add: area_between_def)
qed

lemma in_cut_area:
  assumes "unat p + unat n < 2 ^ 64" and "unat (fst v) + unat (fst (snd v)) < 2 ^ 64"
  shows "(\<exists>w \<in> set (cut_area p n v). in_area a w) \<longleftrightarrow> in_area a v \<and> \<not> unat (a - p) < unat n"
    and "\<forall>(t, k, _) \<in> set (cut_area p n v). unat t + unat k < 2 ^ 64"
proof -
  obtain s k r where v: "v = (s, k, r)" by (cases v) auto
  have hi: "unat s + unat k < 2 ^ 64" using assms(2) v by simp
  then have lo: "min (unat s + unat k) (unat p) < 2 ^ 64" by simp
  note low = area_between_in [OF lo, of "unat s" r] and high = area_between_in [OF hi]
  have "unat (a - p) < unat n \<longleftrightarrow> unat p \<le> unat a \<and> unat a < unat p + unat n"
    using assms(1) by (intro unat_offset_range) simp
  with low(1) [of a] high(1) [of "max (unat s) (unat p + unat n)" r a] in_area_range [OF hi, of a r]
  show "(\<exists>w \<in> set (cut_area p n v). in_area a w) \<longleftrightarrow> in_area a v \<and> \<not> unat (a - p) < unat n"
    by (auto simp: v cut_area_def bex_Un)
  show "\<forall>(t, k, _) \<in> set (cut_area p n v). unat t + unat k < 2 ^ 64"
    using low(2) high(2) [of "max (unat s) (unat p + unat n)" r] by (simp add: v cut_area_def ball_Un)
qed

lemma munmap_wf:
  assumes "proc_wf P" and "unat p + unat (page_ceil n) < 2 ^ 64"
  shows "proc_wf (munmap p n P)"
proof (cases "n = 0")
  case True
  then have "munmap p n P = P" by (simp add: munmap_def page_ceil_def)
  with assms(1) show ?thesis by simp
next
  case False
  let ?cut = "cut_area p (page_ceil n)"
  have v: "unat (fst v) + unat (fst (snd v)) < 2 ^ 64" if "v \<in> set (vmas P)" for v
    using assms(1) that by (auto simp: proc_wf_def)
  note c = in_cut_area [OF assms(2) v]
  have "(\<exists>w \<in> set (concat (map ?cut (vmas P))). in_area a w) \<longleftrightarrow>
      (\<exists>v \<in> set (vmas P). in_area a v) \<and> \<not> unat (a - p) < unat (page_ceil n)" for a
    using c(1) by (auto simp: Bex_def) blast+
  moreover have "\<forall>(t, k, _) \<in> set (concat (map ?cut (vmas P))). unat t + unat k < 2 ^ 64"
    using c(2) by fastforce
  ultimately show ?thesis using assms(1) False by (auto simp: munmap_def proc_wf_def)
qed

lemma fold_munmap:
  assumes "\<forall>(p, n) \<in> set ms. unat p + unat (page_ceil (ucast n)) < 2 ^ 64" and "proc_wf P"
  shows "proc_wf (fold (\<lambda>(p, n). munmap p (ucast n)) ms P) \<and>
    mem (fold (\<lambda>(p, n). munmap p (ucast n)) ms P) a =
      (if \<exists>(p, n :: u32) \<in> set ms. unat (a - p) < unat (page_ceil (ucast n)) then None else mem P a)"
  using assms
proof (induction ms arbitrary: P)
  case Nil
  then show ?case by simp
next
  case (Cons m ms)
  obtain p n where m: "m = (p, n)" by (cases m) auto
  with Cons.prems have "proc_wf (munmap p (ucast n) P)" by (simp add: munmap_wf)
  from Cons.IH [OF _ this] Cons.prems(1) m show ?case by (auto simp: munmap_def)
qed

lemma below_page_ceil:
  assumes "x < page_ceil x"
  shows "unat x + 4095 < 2 ^ 64"
proof (rule ccontr)
  assume w: "\<not> unat x + 4095 < 2 ^ 64"
  moreover have "unat x < 2 ^ 64" using unsigned_less [of x] by simp
  ultimately have "unat (x + 0xfff) = unat x + 4095 - 2 ^ 64"
    by (simp add: unat_word_ariths le_mod_geq not_less)
  with w \<open>unat x < 2 ^ 64\<close> have "unat (page_ceil x) = 0" by (simp add: page_ceil_floor unat_page_floor)
  with assms show False by (simp add: word_less_nat_alt)
qed

text \<open>What a segment leaves in \<open>memories_\<close> never reaches past the segment's own mapping.\<close>

lemma exec_segment_memory:
  assumes "exec_load_segment os (x, P) h = Inr (x', P')" and "read_Phdr (mem P) h = Inr ph"
    and "seg_ok 0 ph"
  shows "ex_memories x' = ex_memories x @
      (if p_type ph = PT_LOAD then [(page_floor (p_vaddr ph), ucast (p_memsz ph))] else [])"
    and "p_type ph = PT_LOAD \<Longrightarrow>
      unat (page_floor (p_vaddr ph)) + unat (page_ceil (ucast (ucast (p_memsz ph) :: u32))) < 2 ^ 64"
proof -
  show "ex_memories x' = ex_memories x @
      (if p_type ph = PT_LOAD then [(page_floor (p_vaddr ph), ucast (p_memsz ph))] else [])"
    using assms(1,2) by (auto simp: exec_load_segment_def Let_def res_simps split: prod.splits if_splits)
  assume t: "p_type ph = PT_LOAD"
  let ?v = "unat (p_vaddr ph)" and ?n = "unat (p_memsz ph)" and ?k = "ucast (ucast (p_memsz ph) :: u32) :: u64"
  have "p_vaddr ph + p_memsz ph < page_ceil (p_vaddr ph + p_memsz ph)"
    using assms(1,2) t by (auto simp: exec_load_segment_def Let_def res_simps split: prod.splits if_splits)
  from below_page_ceil [OF this] have b: "?v + ?n + 4095 < 2 ^ 64"
    using assms(3) t by (simp add: seg_ok_def unat_word_ariths)
  have k: "unat ?k \<le> ?n" by (simp add: unsigned_ucast_eq take_bit_eq_mod unat_mod)
  with b have "unat (page_ceil ?k) = (unat ?k + 4095) div 4096 * 4096" by (intro unat_page_ceil) simp
  with k b show "unat (page_floor (p_vaddr ph)) + unat (page_ceil ?k) < 2 ^ 64"
    by (simp add: unat_page_floor)
qed

text \<open>What the segments at the headers \<open>hs\<close> leave there.\<close>

definition kept_at :: "memory \<Rightarrow> addr \<Rightarrow> (addr \<times> u32) set" where
  "kept_at m h = {(page_floor (p_vaddr ph), ucast (p_memsz ph)) | ph.
     read_Phdr m h = Inr ph \<and> p_type ph = PT_LOAD}"

lemma kept_at_read:
  "read_Phdr m h = Inr ph \<Longrightarrow>
    kept_at m h = (if p_type ph = PT_LOAD then {(page_floor (p_vaddr ph), ucast (p_memsz ph))} else {})"
  by (auto simp: kept_at_def)

lemma exec_loop_memories:
  assumes "mmap_fresh os"
  shows "foldR (exec_load_segment os) (x, P) hs = Inr (x', P') \<Longrightarrow> proc_wf P \<Longrightarrow>
    \<forall>h \<in> set hs. \<exists>ph. read_Phdr (mem P) h = Inr ph \<and> seg_ok 0 ph \<Longrightarrow>
    set (ex_memories x') = set (ex_memories x) \<union> (\<Union>h \<in> set hs. kept_at (mem P) h) \<and>
    (\<forall>h \<in> set hs. \<forall>(p, n) \<in> kept_at (mem P) h. unat p + unat (page_ceil (ucast n)) < 2 ^ 64)"
proof (induction hs arbitrary: x P)
  case Nil
  then show ?case by simp
next
  case (Cons h hs)
  then obtain x1 P1 where st: "exec_load_segment os (x, P) h = Inr (x1, P1)"
    and rest: "foldR (exec_load_segment os) (x1, P1) hs = Inr (x', P')" by (auto simp: res_simps)
  from Cons.prems(3) obtain ph where ph: "read_Phdr (mem P) h = Inr ph" "seg_ok 0 ph" by auto
  have one: "proc_wf P1" "mem P \<subseteq>\<^sub>m mem P1"
    using exec_loop_effect [OF assms, of x P "[h]" x1 P1] st Cons.prems(2) ph by auto
  have same: "read_Phdr (mem P1) d = read_Phdr (mem P) d" if "d \<in> set hs" for d
    using read_Phdr_later [OF _ one(2)] Cons.prems(3) that by fastforce
  with Cons.prems(3) have "\<forall>d \<in> set hs. \<exists>q. read_Phdr (mem P1) d = Inr q \<and> seg_ok 0 q" by simp
  note IH = Cons.IH [OF rest one(1) this]
  have "kept_at (mem P1) d = kept_at (mem P) d" if "d \<in> set hs" for d
    using same [OF that] by (simp add: kept_at_def)
  with IH exec_segment_memory [OF st ph] kept_at_read [OF ph(1)] show ?case
    by (simp add: Un_assoc split: if_splits)
qed

section \<open>Properties\<close>

text \<open>
  C37: the image of a static executable is the file. After \<open>ExecLoader::Load\<close> byte
  \<open>i\<close> of every \<open>PT_LOAD\<close> segment, at its absolute address, is the byte of the mapped
  file at \<open>p_offset + i\<close>, or zero past \<open>p_filesz\<close>, and everything mapped before is
  unchanged, the mapping of the file and its headers included.
\<close>

theorem exec_load_image:
  assumes "mmap_fresh os" and "proc_wf P" and "exec_Load os (x, P) = Inr (x', P')"
    and "\<forall>a \<in> set (ex_phdrs x). \<exists>ph. read_Phdr (mem P) a = Inr ph \<and> seg_ok 0 ph"
    and "a \<in> set (ex_phdrs x)" and "read_Phdr (mem P) a = Inr ph" and "p_type ph = PT_LOAD"
    and "i < unat (p_memsz ph)"
    and "i < unat (p_filesz ph) \<Longrightarrow> mem P (ex_head x + p_offset ph + of_nat i) = Some v"
  shows "mem P' (p_vaddr ph + of_nat i) = Some (if i < unat (p_filesz ph) then v else 0) \<and>
    mem P \<subseteq>\<^sub>m mem P' \<and> proc_wf P'"
proof -
  from assms(3) have l: "foldR (exec_load_segment os) (x, P) (ex_phdrs x) = Inr (x', P')"
    by (simp add: exec_Load_def)
  note eff = exec_loop_effect [OF assms(1) l assms(2,4)]
  from eff assms(5,6) have "seg_placed (mem P) (mem P') (static_bin x) ph" by blast
  from seg_placed_at [OF this assms(7,8), of v] assms(9) eff show ?thesis
    by (auto simp: seg_src_def seg_dst_def)
qed


lemma page_ceil_aligned:
  assumes "unat x mod 4096 = 0" and "unat x + 4095 < 2 ^ 64"
  shows "page_ceil x = x"
proof -
  from assms(1) obtain k where k: "unat x = 4096 * k" by auto
  have "(4096 * k + 4095) div 4096 * 4096 = 4096 * k" by simp
  then have "unat (page_ceil x) = unat x" using unat_page_ceil [OF assms(2)] k by simp
  then show ?thesis by (rule unsigned_word_eqI)
qed

text \<open>The sample executable, opened and loaded.\<close>

abbreviation static_host :: os where
  "static_host \<equiv> host_with [(''/a'', exec_file)]"

abbreviation static_loader :: ExecLoader where
  "static_loader \<equiv> \<lparr>ex_head = 0x7f0000000000, ex_size = 0x1000, ex_filename = ''a'',
     ex_phdrs = [0x7f0000000040], ex_ph_dynamic = 0, ex_memories = []\<rparr>"

abbreviation static_proc :: proc where
  "static_proc \<equiv> \<lparr>mem = map_at (\<lambda>_. None) 0x7f0000000000 0x1000 (file_byte exec_file),
     vmas = [(0x7f0000000000, 0x1000, 7)], fds = 4, map_file = []\<rparr>"

lemmas eval_exec = MakeExecLoader_def ExecLoader_ctor_def find_dynamic_def exec_Load_def
  exec_load_segment_def

lemma static_make: "MakeExecLoader static_host ''/a'' ''a'' (empty_proc 5) = Inr (static_loader, static_proc)"
  by (simp add: eval_exec eval_simps exec_file_eq empty_proc_def)

lemma static_phdr: "read_Phdr (mem static_proc) 0x7f0000000040 = Inr exec_seg"
  by (simp add: eval_simps exec_file_eq exec_seg_def)

lemma static_load: "\<exists>x P. exec_Load static_host (static_loader, static_proc) = Inr (x, P)"
  by (simp add: eval_exec eval_simps exec_file_eq)

lemma static_wf: "proc_wf static_proc"
  by (auto simp: proc_wf_def map_at_def in_area_def)

theorem exec_load_image_witness:
  "\<exists>x P x' P'. MakeExecLoader static_host ''/a'' ''a'' (empty_proc 5) = Inr (x, P) \<and>
     exec_Load static_host (x, P) = Inr (x', P') \<and> mem P' 0x10011 = Some 0xad"
proof -
  obtain x' P' where l: "exec_Load static_host (static_loader, static_proc) = Inr (x', P')"
    using static_load by blast
  have ok: "\<forall>a \<in> set (ex_phdrs static_loader). \<exists>ph. read_Phdr (mem static_proc) a = Inr ph \<and> seg_ok 0 ph"
    using static_phdr by (simp add: seg_ok_def exec_seg_def)
  have "mem P' (p_vaddr exec_seg + of_nat 1) = Some (if 1 < unat (p_filesz exec_seg) then 0xad else 0)"
    using exec_load_image [OF host_with_fresh static_wf l ok _ static_phdr, of 1 "0xad"]
    by (simp add: exec_seg_def map_at_def file_byte_def exec_file_eq)
  then have "mem P' 0x10011 = Some 0xad" by (simp add: exec_seg_def)
  with static_make l show ?thesis by blast
qed

text \<open>A process that holds one program header, at address 0x40.\<close>

definition header_proc :: "Elf64_Phdr \<Rightarrow> proc" where
  "header_proc ph = \<lparr>mem = map_at (\<lambda>_. None) 0x40 0x40 (\<lambda>i. (enc_Phdr ph @ replicate 8 0) ! i),
     vmas = [(0x40, 0x40, 7)], fds = 0, map_file = []\<rparr>"

lemma header_proc_read: "read_Phdr (mem (header_proc ph)) 0x40 = Inr ph"
proof -
  have l: "length (enc_Phdr ph) = 56" by (simp add: enc_Phdr_def bytes_of_def)
  have "read_bytes (mem (header_proc ph)) 0x40 sizeof_Phdr = Inr (enc_Phdr ph)"
    using l by (auto simp: read_bytes_iff header_proc_def map_at_def unat_of_nat_u64 nth_append)
  then show ?thesis by (simp add: read_defs Phdr_of_enc)
qed

lemma header_proc_wf: "proc_wf (header_proc ph)"
  by (auto simp: proc_wf_def header_proc_def map_at_def in_area_def)

text \<open>
  C39: what \<open>Unload\<close> gives back. After \<open>Load\<close> it unmaps, from the first page of every
  \<open>PT_LOAD\<close> segment on, as many pages as \<open>p_memsz\<close> cut to 32 bits needs, and nothing
  else: the pages that a segment takes because it starts inside a page, and those past four
  gigabytes, stay mapped. The process stays well formed.
\<close>

theorem Unload_pages:
  assumes "mmap_fresh os" and "proc_wf P" and "ex_memories x = []"
    and "exec_Load os (x, P) = Inr (x', P')"
    and "\<forall>h \<in> set (ex_phdrs x). \<exists>ph. read_Phdr (mem P) h = Inr ph \<and> seg_ok 0 ph"
  shows "proc_wf (Unload x' P') \<and> mem (Unload x' P') a =
    (if \<exists>h ph. h \<in> set (ex_phdrs x) \<and> read_Phdr (mem P) h = Inr ph \<and> p_type ph = PT_LOAD \<and>
        unat (a - page_floor (p_vaddr ph)) < unat (page_ceil (ucast (ucast (p_memsz ph) :: u32)))
     then None else mem P' a)"
proof -
  from assms(4) have l: "foldR (exec_load_segment os) (x, P) (ex_phdrs x) = Inr (x', P')"
    by (simp add: exec_Load_def)
  from exec_loop_memories [OF assms(1) l assms(2,5)] assms(3)
  have k: "set (ex_memories x') = (\<Union>h \<in> set (ex_phdrs x). kept_at (mem P) h)"
    and b: "\<forall>(p, n) \<in> set (ex_memories x'). unat p + unat (page_ceil (ucast n)) < 2 ^ 64" by auto
  have "proc_wf P'" using exec_loop_effect [OF assms(1) l assms(2,5)] by blast
  note fold_munmap [OF b this, of a]
  moreover have "(\<exists>(p, n) \<in> set (ex_memories x'). unat (a - p) < unat (page_ceil (ucast n))) \<longleftrightarrow>
    (\<exists>h ph. h \<in> set (ex_phdrs x) \<and> read_Phdr (mem P) h = Inr ph \<and> p_type ph = PT_LOAD \<and>
        unat (a - page_floor (p_vaddr ph)) < unat (page_ceil (ucast (ucast (p_memsz ph) :: u32))))"
    by (auto simp: k kept_at_def)
  ultimately show ?thesis by (simp add: Unload_def)
qed

text \<open>Sixteen bytes across the boundary of two pages: the second page is left behind.\<close>

definition cross_seg :: Elf64_Phdr where
  "cross_seg = exec_seg\<lparr>p_vaddr := 0x10ff8, p_filesz := 0, p_memsz := 16\<rparr>"

definition cross_loader :: ExecLoader where
  "cross_loader = static_loader\<lparr>ex_head := 0, ex_phdrs := [0x40]\<rparr>"

lemma cross_load:
  "\<exists>x P. exec_Load (host_with []) (cross_loader, header_proc cross_seg) = Inr (x, P) \<and>
     mem P 0x11000 = Some 0"
proof -
  have v: "vmas (header_proc cross_seg) = [(0x40, 0x40, 7)]" by (simp add: header_proc_def)
  have seg: "p_type cross_seg = PT_LOAD" "p_vaddr cross_seg = 0x10ff8" "p_memsz cross_seg = 16"
    "p_filesz cross_seg = 0" by (simp_all add: cross_seg_def exec_seg_def)
  show ?thesis
    by (simp add: exec_Load_def cross_loader_def exec_load_segment_def header_proc_read seg)
       (simp add: eval_simps v)
qed

theorem Unload_pages_witness:
  "\<exists>x P. exec_Load (host_with []) (cross_loader, header_proc cross_seg) = Inr (x, P) \<and>
     mem (Unload x P) 0x10ff8 = None \<and> mem (Unload x P) 0x11000 = Some 0"
proof -
  obtain x P where l: "exec_Load (host_with []) (cross_loader, header_proc cross_seg) = Inr (x, P)"
    and m: "mem P 0x11000 = Some 0" using cross_load by blast
  have h: "\<forall>h \<in> set (ex_phdrs cross_loader). \<exists>ph. read_Phdr (mem (header_proc cross_seg)) h = Inr ph \<and> seg_ok 0 ph"
    by (simp add: cross_loader_def header_proc_read seg_ok_def cross_seg_def exec_seg_def)
  have "ex_memories cross_loader = []" by (simp add: cross_loader_def)
  note u = Unload_pages [OF host_with_fresh header_proc_wf this l h]
  from u [of "0x10ff8"] u [of "0x11000"] l m show ?thesis
    by (simp add: cross_loader_def header_proc_read cross_seg_def exec_seg_def page_floor_def page_ceil_def)
qed

text \<open>
  C40: \<open>ExecLoader\<close> refuses a segment that ends on a page boundary. Its last check is
  strict where the one of \<open>ELFBinary::Load\<close> is not, so the whole load ends with status 1.
\<close>

theorem exec_load_rejects_aligned_end:
  assumes "read_Phdr (mem P) ph_addr = Inr ph" and "p_type ph = PT_LOAD"
    and "unat (p_vaddr ph + p_memsz ph) mod 4096 = 0"
    and "unat (p_vaddr ph + p_memsz ph) + 4095 < 2 ^ 64"
  shows "exec_load_segment os (x, P) ph_addr = Inl (ExitWith 1)"
  using assms page_ceil_aligned [OF assms(3,4)]
  by (simp add: exec_load_segment_def Let_def CHECK_def split: prod.splits)

text \<open>A segment that fills the page at 0x1000.\<close>

definition page_seg :: Elf64_Phdr where
  "page_seg = exec_seg\<lparr>p_vaddr := 0x1000, p_memsz := 0x1000\<rparr>"

abbreviation page_proc :: proc where
  "page_proc \<equiv> header_proc page_seg"

theorem exec_load_rejects_aligned_end_witness:
  "\<forall>x. read_Phdr (mem page_proc) 0x40 = Inr page_seg \<and>
     exec_load_segment (host_with []) (x, page_proc) 0x40 = Inl (ExitWith 1)"
proof
  fix x
  have "p_type page_seg = PT_LOAD" "unat (p_vaddr page_seg + p_memsz page_seg) mod 4096 = 0"
    "unat (p_vaddr page_seg + p_memsz page_seg) + 4095 < 2 ^ 64"
    by (simp_all add: page_seg_def exec_seg_def)
  from exec_load_rejects_aligned_end [OF header_proc_read this] header_proc_read [of page_seg]
  show "read_Phdr (mem page_proc) 0x40 = Inr page_seg \<and>
    exec_load_segment (host_with []) (x, page_proc) 0x40 = Inl (ExitWith 1)" by blast
qed

text \<open>The array of words is the one \<open>DynLoader\<close> builds for the reversed environment.\<close>

lemma build_exec_stack_words:
  "build_exec_stack auxs envp fname = build_stack auxs (rev envp) [fname]"
proof -
  have e: "fold (\<lambda>i. put (envp ! i)) [0..<length envp] st =
      fold (\<lambda>i. put (rev envp ! (length envp - 1 - i))) [0..<length envp] st" for st
    by (intro fold_cong refl) (auto simp: rev_nth)
  have "[0..<1] = [0 :: nat]" by simp
  then show ?thesis unfolding build_exec_stack_def build_stack_def Let_def e by simp
qed

text \<open>
  What a program started by \<open>ExecLoader\<close> finds. With a mapped stack and an
  \<open>AT_RANDOM\<close> from the kernel, \<open>Execute\<close> reaches the jump to the file's entry, and
  reading the stack as the ABI prescribes gives the file name as the only argument, the
  auxiliary vector, and the environment in reverse.
\<close>

lemma exec_Execute_starts:
  assumes "os_getauxval os AT_RANDOM \<noteq> 0" and "read_Ehdr (mem P) (ex_head x) = Inr eh"
    and "strings_placed c_strs" and "n = 10 + 2 * length (aux_tvs os) + length envs"
    and "\<forall>i < 8 * n. mem P (rsp - 1 - of_nat i) \<noteq> None" and "8 * n \<le> 2 ^ 64"
  shows "\<exists>m' rsp' ws. exec_Execute os c_strs fname envs rsp (x, P) = Inr (m', rsp', e_entry eh) \<and>
    rsp' = rsp - of_nat (8 * n) \<and> read_words m' rsp' n = Inr ws \<and>
    parse_words ws = ([fname], rev (c_strs envs), rev (aux_tvs os)) \<and>
    (\<forall>y. 8 * n \<le> unat (y - rsp') \<longrightarrow> m' y = mem P y)"
proof -
  let ?st = "stack_words (aux_tvs os) (rev (c_strs envs)) [fname]"
  from assms(3) have c: "length (c_strs envs) = length envs" "0 \<notin> set (c_strs envs)"
    by (simp_all add: strings_placed_def)
  have n: "length ?st = n" using assms(4) c(1) by (simp add: stack_words_def aux_words_length)
  have "exec_Execute os c_strs fname envs rsp (x, P) = ExecuteCore ?st (e_entry eh) (mem P, rsp)"
    using assms(1,2) c(1)
    by (simp add: exec_Execute_def build_exec_stack_words build_stack_words CHECK_def Let_def)
  moreover have "parse_words (rev ?st) = ([fname], rev (c_strs envs), rev (aux_tvs os))"
    using c(2) by (intro parse_stack_words aux_tvs_typed) auto
  ultimately show ?thesis
    using ExecuteCore_pushes [of ?st "mem P" rsp "e_entry eh"] assms(5,6) unfolding n by metis
qed

end
