(* ===== verification/Dynamic_Section.thy ===== *)
theory Dynamic_Section
  imports Elf_Binary
begin

text \<open>
  What \<open>ELFBinary::ParseDynamic\<close> makes of a dynamic section: the section is read as a list
  of tags and values, the last entry of a tag decides, names come from the string table in the
  order of their entries, and the tables the tags point to are read entry by entry.
\<close>

section \<open>Specification\<close>

definition dyn_entry :: "memory \<Rightarrow> ELFBinary \<Rightarrow> nat \<Rightarrow> (u64 \<times> u64) res" where
  "dyn_entry m b i =
     rbind (read_u64 m (dyn_addr b i)) (\<lambda>tag.
     rbind (read_u64 m (dyn_addr b i + 8)) (\<lambda>v. Inr (tag, v)))"

definition dyn_entries :: "memory \<Rightarrow> ELFBinary \<Rightarrow> (u64 \<times> u64) list res" where
  "dyn_entries m b = mapR (dyn_entry m b) [0..<unat (p_filesz (file_dynamic b) div of_nat sizeof_Dyn)]"

text \<open>The value of the last entry of a tag, \<open>d\<close> if there is none.\<close>

fun last_value :: "u64 \<Rightarrow> u64 \<Rightarrow> (u64 \<times> u64) list \<Rightarrow> u64" where
  "last_value t d [] = d"
| "last_value t d ((t', v) # ds) = last_value t (if t' = t then v else d) ds"

definition last_ptr :: "addr \<Rightarrow> u64 \<Rightarrow> addr \<Rightarrow> (u64 \<times> u64) list \<Rightarrow> addr" where
  "last_ptr base t d ds = last_value t d (map (\<lambda>(t, v). (t, base + v)) ds)"

definition values_of :: "u64 \<Rightarrow> (u64 \<times> u64) list \<Rightarrow> u64 list" where
  "values_of t ds = map snd (filter (\<lambda>d. fst d = t) ds)"

section \<open>The loops over the section\<close>

definition set_str :: "ELFBinary \<Rightarrow> u64 \<times> u64 \<Rightarrow> ELFBinary" where
  "set_str b d =
     (if fst d = DT_STRTAB then b\<lparr>strtab := snd d + base_addr b\<rparr>
      else if fst d = DT_STRSZ then b\<lparr>strsz := snd d\<rparr> else b)"

lemma set_str_same [simp]:
  "base_addr (set_str b d) = base_addr b" "file_dynamic (set_str b d) = file_dynamic b"
  "strtab (set_str b d) = (if fst d = DT_STRTAB then base_addr b + snd d else strtab b)"
  "strsz (set_str b d) = (if fst d = DT_STRSZ then snd d else strsz b)"
  by (simp_all add: set_str_def add.commute [of "snd d"])

lemma dyn_entry_reads:
  "dyn_entry m b i = Inr d \<Longrightarrow>
    read_u64 m (dyn_addr b i) = Inr (fst d) \<and> read_u64 m (dyn_addr b i + 8) = Inr (snd d)"
  by (auto simp: dyn_entry_def res_simps)

lemma dyn_entry_place:
  "base_addr b = base_addr c \<Longrightarrow> file_dynamic b = file_dynamic c \<Longrightarrow> dyn_entry m b = dyn_entry m c"
  by (simp add: dyn_entry_def dyn_addr_def fun_eq_iff)

lemma parse_strtab_entries:
  "mapR (dyn_entry m b) is = Inr ds \<Longrightarrow> foldR (parse_strtab m) b is = Inr (fold (\<lambda>d b. set_str b d) ds b)"
proof (induction "is" arbitrary: b ds)
  case Nil
  then show ?case by simp
next
  case (Cons i "is")
  then obtain d ds' where d: "dyn_entry m b i = Inr d" "mapR (dyn_entry m b) is = Inr ds'" "ds = d # ds'"
    by (auto simp: res_simps)
  from dyn_entry_reads [OF d(1)] have p: "parse_strtab m b i = Inr (set_str b d)"
    by (simp add: parse_strtab_def set_str_def)
  from d have "mapR (dyn_entry m (set_str b d)) is = Inr ds'"
    using dyn_entry_place [of "set_str b d" b m] by simp
  from Cons.IH [OF this] d(3) p show ?case by simp
qed

lemma set_dyn_keeps:
  "set_dyn m b t v = Inr b' \<Longrightarrow> base_addr b' = base_addr b \<and> file_dynamic b' = file_dynamic b \<and>
    strtab b' = strtab b \<and> strsz b' = strsz b \<and> relas b' = relas b \<and> pltrelas b' = pltrelas b \<and>
    symtabs b' = symtabs b"
  by (auto simp: set_dyn_def res_simps split: if_splits)

lemma set_dyn_unknown: "t \<notin> set dyn_tags \<Longrightarrow> set_dyn m b t v = Inr b"
  by (simp add: set_dyn_def dyn_tags_def)

lemma parse_dyn_entries:
  "mapR (dyn_entry m b) is = Inr ds \<Longrightarrow>
    foldR (parse_dyn m) b is = foldR (\<lambda>b d. set_dyn m b (fst d) (snd d)) b ds"
proof (induction "is" arbitrary: b ds)
  case Nil
  then show ?case by simp
next
  case (Cons i "is")
  then obtain d ds' where d: "dyn_entry m b i = Inr d" "mapR (dyn_entry m b) is = Inr ds'" "ds = d # ds'"
    by (auto simp: res_simps)
  from dyn_entry_reads [OF d(1)] have p: "parse_dyn m b i = set_dyn m b (fst d) (snd d)"
    by (simp add: parse_dyn_def set_dyn_unknown)
  have "foldR (parse_dyn m) b1 is = foldR (\<lambda>b d. set_dyn m b (fst d) (snd d)) b1 ds'"
    if "set_dyn m b (fst d) (snd d) = Inr b1" for b1
    using Cons.IH [of b1 ds'] set_dyn_keeps [OF that] dyn_entry_place [of b1 b m] d by simp
  then show ?case by (auto simp: d(3) p intro: rbind_cong)
qed

lemma set_dyn_fields:
  assumes "set_dyn m b t v = Inr b'"
  shows "rela b' = (if t = DT_RELA then base_addr b + v else rela b)"
    "relasz b' = (if t = DT_RELASZ then v else relasz b)"
    "relaent b' = (if t = DT_RELAENT then v else relaent b)"
    "jmprel b' = (if t = DT_JMPREL then base_addr b + v else jmprel b)"
    "pltrelsz b' = (if t = DT_PLTRELSZ then v else pltrelsz b)"
    "symtab b' = (if t = DT_SYMTAB then base_addr b + v else symtab b)"
    "init b' = (if t = DT_INIT then v else init b)"
    "init_array b' = (if t = DT_INIT_ARRAY then v else init_array b)"
    "init_arraysz b' = (if t = DT_INIT_ARRAYSZ then v else init_arraysz b)"
  using assms by (auto simp: set_dyn_def res_simps split: if_splits)

lemma set_dyn_needed:
  "set_dyn m b t v = Inr b' \<Longrightarrow> \<exists>ns. neededs b' = neededs b @ ns \<and>
    mapR (\<lambda>v. read_cstr m (strtab b + v)) (if t = DT_NEEDED then [v] else []) = Inr ns"
  by (auto simp: set_dyn_def res_simps split: if_splits)

lemma set_str_fold:
  "strtab (fold (\<lambda>d b. set_str b d) ds b) = last_ptr (base_addr b) DT_STRTAB (strtab b) ds"
  "strsz (fold (\<lambda>d b. set_str b d) ds b) = last_value DT_STRSZ (strsz b) ds"
  "base_addr (fold (\<lambda>d b. set_str b d) ds b) = base_addr b"
  "file_dynamic (fold (\<lambda>d b. set_str b d) ds b) = file_dynamic b"
  by (induction ds arbitrary: b) (auto simp: last_ptr_def)

lemma set_str_other:
  "rela (fold (\<lambda>d b. set_str b d) ds b) = rela b"
  "relasz (fold (\<lambda>d b. set_str b d) ds b) = relasz b"
  "relaent (fold (\<lambda>d b. set_str b d) ds b) = relaent b"
  "jmprel (fold (\<lambda>d b. set_str b d) ds b) = jmprel b"
  "pltrelsz (fold (\<lambda>d b. set_str b d) ds b) = pltrelsz b"
  "symtab (fold (\<lambda>d b. set_str b d) ds b) = symtab b"
  "init (fold (\<lambda>d b. set_str b d) ds b) = init b"
  "init_array (fold (\<lambda>d b. set_str b d) ds b) = init_array b"
  "init_arraysz (fold (\<lambda>d b. set_str b d) ds b) = init_arraysz b"
  "neededs (fold (\<lambda>d b. set_str b d) ds b) = neededs b"
  "relas (fold (\<lambda>d b. set_str b d) ds b) = relas b"
  "pltrelas (fold (\<lambda>d b. set_str b d) ds b) = pltrelas b"
  "symtabs (fold (\<lambda>d b. set_str b d) ds b) = symtabs b"
  by (induction ds arbitrary: b) (auto simp: set_str_def)

lemma set_dyn_fold:
  "foldR (\<lambda>b d. set_dyn m b (fst d) (snd d)) b ds = Inr b' \<Longrightarrow>
    rela b' = last_ptr (base_addr b) DT_RELA (rela b) ds \<and>
    relasz b' = last_value DT_RELASZ (relasz b) ds \<and>
    relaent b' = last_value DT_RELAENT (relaent b) ds \<and>
    jmprel b' = last_ptr (base_addr b) DT_JMPREL (jmprel b) ds \<and>
    pltrelsz b' = last_value DT_PLTRELSZ (pltrelsz b) ds \<and>
    symtab b' = last_ptr (base_addr b) DT_SYMTAB (symtab b) ds \<and>
    init b' = last_value DT_INIT (init b) ds \<and>
    init_array b' = last_value DT_INIT_ARRAY (init_array b) ds \<and>
    init_arraysz b' = last_value DT_INIT_ARRAYSZ (init_arraysz b) ds \<and>
    strtab b' = strtab b \<and> strsz b' = strsz b \<and>
    relas b' = relas b \<and> pltrelas b' = pltrelas b \<and> symtabs b' = symtabs b"
proof (induction ds arbitrary: b)
  case Nil
  then show ?case by (simp add: last_ptr_def)
next
  case (Cons d ds)
  then obtain b1 where s: "set_dyn m b (fst d) (snd d) = Inr b1"
    and r: "foldR (\<lambda>b d. set_dyn m b (fst d) (snd d)) b1 ds = Inr b'" by (auto simp: res_simps)
  from Cons.IH [OF r] set_dyn_fields [OF s] set_dyn_keeps [OF s] show ?case
    by (cases d) (simp add: last_ptr_def)
qed

lemma set_dyn_fold_needed:
  "foldR (\<lambda>b d. set_dyn m b (fst d) (snd d)) b ds = Inr b' \<Longrightarrow> \<exists>ns. neededs b' = neededs b @ ns \<and>
    mapR (\<lambda>v. read_cstr m (strtab b + v)) (values_of DT_NEEDED ds) = Inr ns"
proof (induction ds arbitrary: b)
  case Nil
  then show ?case by (simp add: values_of_def)
next
  case (Cons d ds)
  then obtain b1 where s: "set_dyn m b (fst d) (snd d) = Inr b1"
    and r: "foldR (\<lambda>b d. set_dyn m b (fst d) (snd d)) b1 ds = Inr b'" by (auto simp: res_simps)
  from Cons.IH [OF r] set_dyn_needed [OF s] set_dyn_keeps [OF s] show ?case
    by (cases d) (auto simp: values_of_def res_simps split: if_splits)
qed

section \<open>The tables\<close>

definition table_end :: "memory \<Rightarrow> u64 \<Rightarrow> addr \<Rightarrow> Elf64_Sym list \<Rightarrow> bool" where
  "table_end m limit a syms \<longleftrightarrow>
     (\<exists>name. read_st_name m (a + of_nat (sizeof_Sym * length syms)) = Inr name \<and> limit \<le> ucast name)"

lemma read_Sym_name:
  assumes "read_Sym m a = Inr e" and "read_st_name m a = Inr name"
  shows "st_name e = name"
proof -
  from assms(1) obtain bs where bs: "read_bytes m a sizeof_Sym = Inr bs" "e = Sym_of bs"
    by (auto simp: read_defs res_simps)
  from assms(2) obtain cs where cs: "read_bytes m a 4 = Inr cs" "name = of_nat (le_nat cs)"
    by (auto simp: read_st_name_def res_simps)
  have "cs = take 4 bs" using bs(1) cs(1) by (auto simp: read_bytes_iff intro!: nth_equalityI)
  with bs cs show ?thesis by (simp add: Sym_of_def field_def)
qed

lemma symtab_scan_exact:
  "symtab_scan m limit a = Inr syms \<Longrightarrow>
    mapR (\<lambda>i. read_Sym m (a + of_nat (sizeof_Sym * i))) [0..<length syms] = Inr syms \<and>
    (\<forall>s \<in> set syms. ucast (st_name s) < limit) \<and> table_end m limit a syms"
proof (induction m limit a arbitrary: syms rule: symtab_scan.induct)
  case (1 m limit a)
  from 1(2) obtain name where n: "read_st_name m a = Inr name"
    by (subst (asm) symtab_scan.simps) (auto simp: res_simps)
  show ?case
  proof (cases "ucast name < limit")
    case False
    with 1(2) n have "syms = []" by (subst (asm) symtab_scan.simps) simp
    with False n show ?thesis by (simp add: table_end_def)
  next
    case True
    with 1(2) n obtain e rest where s: "read_Sym m a = Inr e" "\<not> 2 ^ 64 \<le> unat a + sizeof_Sym"
      "symtab_scan m limit (a + of_nat sizeof_Sym) = Inr rest" "syms = e # rest"
      by (subst (asm) symtab_scan.simps) (auto simp: res_simps split: if_splits)
    note IH = 1(1) [OF n True s(1,2,3)]
    have name: "st_name e = name" by (rule read_Sym_name [OF s(1) n])
    let ?f = "\<lambda>i. read_Sym m (a + of_nat (sizeof_Sym * i))"
    have "?f (Suc i) = read_Sym m (a + of_nat sizeof_Sym + of_nat (sizeof_Sym * i))" for i
      by (simp add: algebra_simps)
    with IH have "mapR (\<lambda>i. ?f (Suc i)) [0..<length rest] = Inr rest" by simp
    then have "mapR ?f [0..<length syms] = Inr syms"
      using s(1) by (simp add: s(4) mapR_upt_Suc del: upt_Suc)
    moreover have "table_end m limit a syms"
      using IH by (simp add: table_end_def s(4) algebra_simps)
    ultimately show ?thesis using IH True name s(4) by simp
  qed
qed

lemma ParseDynamic_phases:
  assumes "ParseDynamic m b = Inr b'"
  obtains n b1 b2 b3 b4 where "n = unat (p_filesz (file_dynamic b) div of_nat sizeof_Dyn)"
    "foldR (parse_strtab m) b [0..<n] = Inr b1" "foldR (parse_dyn m) b1 [0..<n] = Inr b2"
    "parse_relas m b2 = Inr b3" "parse_pltrelas m b3 = Inr b4" "parse_symtab m b4 = Inr b'"
  using assms by (auto simp: ParseDynamic_def Let_def res_simps)

lemma parse_relas_parts:
  "parse_relas m b = Inr b' \<Longrightarrow> \<exists>rs. b' = b\<lparr>relas := relas b @ rs\<rparr> \<and>
    (if rela b = 0 then rs = []
     else relaent b \<noteq> 0 \<and> read_relas m (rela b) (unat (relasz b div relaent b)) = Inr rs)"
  by (auto simp: parse_relas_def res_simps split: if_splits)

lemma parse_pltrelas_parts:
  "parse_pltrelas m b = Inr b' \<Longrightarrow> \<exists>rs. b' = b\<lparr>pltrelas := pltrelas b @ rs\<rparr> \<and>
    (if jmprel b = 0 then rs = []
     else pltrelent b \<noteq> 0 \<and> read_relas m (jmprel b) (unat (pltrelsz b div pltrelent b)) = Inr rs)"
  by (auto simp: parse_pltrelas_def res_simps split: if_splits)

lemma parse_symtab_parts:
  assumes "parse_symtab m b = Inr b'"
  shows "\<exists>syms. b' = b\<lparr>symtabs := symtabs b @ syms\<rparr> \<and>
    (if symtab b = 0 then syms = []
     else \<exists>first rest. syms = first # rest \<and> read_Sym m (symtab b) = Inr first \<and>
       symtab_scan m (strsz b) (symtab b + of_nat sizeof_Sym) = Inr rest)"
proof (cases "symtab b = 0")
  case True
  with assms show ?thesis by (simp add: parse_symtab_def)
next
  case False
  with assms obtain first rest where "read_Sym m (symtab b) = Inr first"
    "symtab_scan m (strsz b) (symtab b + of_nat sizeof_Sym) = Inr rest"
    "b' = b\<lparr>symtabs := symtabs b @ first # rest\<rparr>"
    unfolding parse_symtab_def by (simp only: rbind_eq_Inr Let_def if_True not_False_eq_True) auto
  with False show ?thesis by (intro exI [of _ "first # rest"]) simp
qed

interpretation empty_str_loop: checked_loop "parse_strtab m"
  "\<lambda>b. relas b = [] \<and> pltrelas b = [] \<and> symtabs b = []" for m
  by unfold_locales (auto simp: parse_strtab_def res_simps split: if_splits)

interpretation empty_dyn_loop: checked_loop "parse_dyn m"
  "\<lambda>b. relas b = [] \<and> pltrelas b = [] \<and> symtabs b = []" for m
  by unfold_locales (auto simp: parse_dyn_def res_simps split: if_splits dest!: set_dyn_keeps)

lemma read_relas_exact:
  "read_relas m a n = Inr rs \<Longrightarrow> length rs = n \<and>
    (\<forall>i < n. read_Rela m (a + of_nat (sizeof_Rela * i)) = Inr (rs ! i))"
  unfolding read_relas_def by (frule mapR_length) (auto dest: mapR_nth)

text \<open>A symbol table that starts at \<open>a\<close>, as far as names inside a string table go.\<close>

definition symbol_table :: "memory \<Rightarrow> u64 \<Rightarrow> addr \<Rightarrow> Elf64_Sym list \<Rightarrow> bool" where
  "symbol_table m limit a syms \<longleftrightarrow> syms \<noteq> [] \<and>
     (\<forall>i < length syms. read_Sym m (a + of_nat (sizeof_Sym * i)) = Inr (syms ! i)) \<and>
     (\<forall>s \<in> set (tl syms). ucast (st_name s) < limit) \<and> table_end m limit a syms"

lemma symtab_scan_table:
  assumes "read_Sym m a = Inr first" and "symtab_scan m limit (a + of_nat sizeof_Sym) = Inr rest"
  shows "symbol_table m limit a (first # rest)"
proof -
  note scan = symtab_scan_exact [OF assms(2)]
  have "read_Sym m (a + of_nat (sizeof_Sym * i)) = Inr ((first # rest) ! i)"
    if i: "i < length (first # rest)" for i
  proof (cases i)
    case (Suc k)
    with i have "k < length [0..<length rest]" by simp
    with mapR_nth [OF conjunct1 [OF scan]] Suc show ?thesis by (simp add: algebra_simps)
  qed (simp add: assms(1))
  moreover have "table_end m limit a (first # rest)"
    using scan by (simp add: table_end_def algebra_simps)
  ultimately show ?thesis using scan by (simp add: symbol_table_def)
qed

section \<open>Properties\<close>


text \<open>
  C17: the tables are read exactly. Each of the two relocation tables has as many entries as
  its size and entry size give and holds the structures that lie at its address one after the
  other; the symbol table starts with the entry at \<open>DT_SYMTAB\<close> and goes on exactly up to
  the first one whose name lies outside the string table.
\<close>

theorem ParseDynamic_tables:
  assumes "ParseDynamic m b = Inr b'" and "relas b = []" and "pltrelas b = []" and "symtabs b = []"
  shows "(if rela b' = 0 then relas b' = [] else relaent b' \<noteq> 0 \<and>
      length (relas b') = unat (relasz b') div unat (relaent b') \<and>
      (\<forall>i < length (relas b'). read_Rela m (rela b' + of_nat (sizeof_Rela * i)) = Inr (relas b' ! i))) \<and>
    (if jmprel b' = 0 then pltrelas b' = [] else pltrelent b' \<noteq> 0 \<and>
      length (pltrelas b') = unat (pltrelsz b') div unat (pltrelent b') \<and>
      (\<forall>i < length (pltrelas b').
         read_Rela m (jmprel b' + of_nat (sizeof_Rela * i)) = Inr (pltrelas b' ! i))) \<and>
    (if symtab b' = 0 then symtabs b' = [] else symbol_table m (strsz b') (symtab b') (symtabs b'))"
proof -
  from assms(1) obtain n b1 b2 b3 b4 where l: "foldR (parse_strtab m) b [0..<n] = Inr b1"
      "foldR (parse_dyn m) b1 [0..<n] = Inr b2"
    and t: "parse_relas m b2 = Inr b3" "parse_pltrelas m b3 = Inr b4" "parse_symtab m b4 = Inr b'"
    by (rule ParseDynamic_phases)
  have "relas b1 = [] \<and> pltrelas b1 = [] \<and> symtabs b1 = []"
    by (rule empty_str_loop.loop_inv [OF _ l(1)]) (simp add: assms)
  from empty_dyn_loop.loop_inv [OF this l(2)]
  have e: "relas b2 = []" "pltrelas b2 = []" "symtabs b2 = []" by simp_all
  from parse_relas_parts [OF t(1)] e obtain rs where b3: "b3 = b2\<lparr>relas := rs\<rparr>"
    and rs: "if rela b2 = 0 then rs = [] else relaent b2 \<noteq> 0 \<and>
      read_relas m (rela b2) (unat (relasz b2 div relaent b2)) = Inr rs" by auto
  from parse_pltrelas_parts [OF t(2)] obtain qs where "b4 = b3\<lparr>pltrelas := pltrelas b3 @ qs\<rparr>"
    and qs: "if jmprel b3 = 0 then qs = [] else pltrelent b3 \<noteq> 0 \<and>
      read_relas m (jmprel b3) (unat (pltrelsz b3 div pltrelent b3)) = Inr qs" by blast
  with e b3 have b4: "b4 = b3\<lparr>pltrelas := qs\<rparr>" by simp
  from parse_symtab_parts [OF t(3)] obtain syms where "b' = b4\<lparr>symtabs := symtabs b4 @ syms\<rparr>"
    and syms: "if symtab b4 = 0 then syms = []
      else \<exists>first rest. syms = first # rest \<and> read_Sym m (symtab b4) = Inr first \<and>
        symtab_scan m (strsz b4) (symtab b4 + of_nat sizeof_Sym) = Inr rest" by blast
  with e b3 b4 have b': "b' = b4\<lparr>symtabs := syms\<rparr>" by simp
  have "if symtab b4 = 0 then syms = [] else symbol_table m (strsz b4) (symtab b4) syms"
    using syms symtab_scan_table by (auto split: if_splits)
  with rs qs show ?thesis
    by (auto simp: b' b4 b3 unat_div dest: read_relas_exact split: if_splits)
qed

section \<open>A sample section\<close>

text \<open>
  At 0x1000 a string table with the name \<open>a\<close>, one symbol, one relocation, and a dynamic
  section of seven entries that names its library before its string table.
\<close>

definition section_byte :: "nat \<Rightarrow> byte" where
  "section_byte i =
     (if i < 0x40 then (if i = 1 then 0x61 else 0)
      else if i < 0x60 then (if i = 0x40 then 1 else if i = 0x44 then 0x10 else if i = 0x46 then 1
        else if i = 0x48 then 0x20 else if i = 0x58 then 9 else 0)
      else if i < 0x80 then (if i = 0x60 then 0x30 else if i = 0x68 then 8 else if i = 0x70 then 0x44 else 0)
      else if i < 0xb0 then (if i = 0x80 then 1 else if i = 0x88 then 1 else if i = 0x90 then 10
        else if i = 0x98 then 4 else if i = 0xa0 then 5 else 0)
      else if i < 0xd0 then (if i = 0xb0 then 7 else if i = 0xb8 then 0x60 else if i = 0xc0 then 8
        else if i = 0xc8 then 24 else 0)
      else (if i = 0xd0 then 9 else if i = 0xd8 then 24 else if i = 0xe0 then 6
        else if i = 0xe8 then 0x40 else 0))"

definition section_mem :: memory where
  "section_mem = map_at (\<lambda>_. None) 0x1000 0x100 section_byte"

definition section_bin :: ELFBinary where
  "section_bin = (new_ELFBinary ''/d'' 0 \<lparr>e_type = ET_DYN, e_entry = 0, e_phoff = 0, e_phentsize = 0,
     e_phnum = 0\<rparr>)\<lparr>base_addr := 0x1000, file_dynamic := zero_Phdr\<lparr>p_vaddr := 0x80, p_filesz := 112\<rparr>\<rparr>"

lemma section_bin_sel:
  "base_addr section_bin = 0x1000" "p_vaddr (file_dynamic section_bin) = 0x80"
  "p_filesz (file_dynamic section_bin) = 112" "strtab section_bin = 0" "relas section_bin = []"
  "pltrelas section_bin = []" "symtabs section_bin = []" "neededs section_bin = []"
  "rela section_bin = 0" "relasz section_bin = 0" "relaent section_bin = 0"
  "jmprel section_bin = 0" "symtab section_bin = 0"
  by (simp_all add: section_bin_def new_ELFBinary_def)

lemma section_entries:
  "dyn_entries section_mem section_bin = Inr [(DT_NEEDED, 1), (DT_STRSZ, 4), (DT_STRTAB, 0), (DT_RELA, 0x60),
     (DT_RELASZ, 24), (DT_RELAENT, 24), (DT_SYMTAB, 0x40)]"
  by (simp add: dyn_entries_def dyn_entry_def dyn_addr_def section_bin_sel eval_simps section_mem_def
      section_byte_def)

lemma char_97: "char_of (97 :: nat) = CHR ''a''"
  by code_simp

lemma section_reads:
  "read_cstr section_mem 0x1001 = Inr ''a''"
  "read_Rela section_mem 0x1060 = Inr \<lparr>r_offset = 0x30, r_info = 8, r_addend = 0x44\<rparr>"
  "read_Sym section_mem 0x1040 = Inr \<lparr>st_name = 1, st_info = 0x10, st_other = 0, st_shndx = 1,
     st_value = 0x20, st_size = 0\<rparr>"
  "read_st_name section_mem 0x1058 = Inr 9"
  by (simp_all add: eval_simps read_cstr.simps section_mem_def section_byte_def read_st_name_def
      char_97)

lemma section_parse:
  "\<exists>b. ParseDynamic section_mem section_bin = Inr b \<and> rela b = 0x1060 \<and> relasz b = 24 \<and> relaent b = 24 \<and>
     symtab b = 0x1040"
proof -
  let ?ds = "[(DT_NEEDED, 1), (DT_STRSZ, 4), (DT_STRTAB, 0), (DT_RELA, 0x60),
     (DT_RELASZ, 24), (DT_RELAENT, 24), (DT_SYMTAB, 0x40)] :: (u64 \<times> u64) list"
  let ?b1 = "fold (\<lambda>d b. set_str b d) ?ds section_bin"
  have ds: "mapR (dyn_entry section_mem section_bin) [0..<7] = Inr ?ds"
    using section_entries by (simp add: dyn_entries_def section_bin_sel del: upt_rec_numeral)
  have "mapR (dyn_entry section_mem ?b1) [0..<7] = Inr ?ds"
    using ds dyn_entry_place [of ?b1 section_bin section_mem] set_str_fold(3,4) by simp
  moreover have b1: "?b1 = section_bin\<lparr>strsz := 4, strtab := 0x1000\<rparr>"
    by (simp add: set_str_def section_bin_sel)
  ultimately have "mapR (dyn_entry section_mem (section_bin\<lparr>strsz := 4, strtab := 0x1000\<rparr>)) [0..<7] = Inr ?ds"
    by simp
  note loops = parse_strtab_entries [OF ds, unfolded b1] parse_dyn_entries [OF this]
  have scan: "symtab_scan section_mem 4 0x1058 = Inr []"
    by (subst symtab_scan.simps) (simp add: section_reads)
  show ?thesis
    by (simp add: ParseDynamic_def loops section_bin_sel CHECK_def set_str_def set_dyn_def
        section_reads parse_relas_def parse_pltrelas_def parse_symtab_def read_relas_def scan
        ShowSym_def ShowSTT_def Let_def ELF64_ST_TYPE_def del: upt_rec_numeral)
qed


theorem ParseDynamic_tables_witness:
  "\<exists>b'. ParseDynamic section_mem section_bin = Inr b' \<and>
     relas b' = [\<lparr>r_offset = 0x30, r_info = 8, r_addend = 0x44\<rparr>] \<and> symbol_table section_mem (strsz b') 0x1040 (symtabs b')"
proof -
  obtain b' where p: "ParseDynamic section_mem section_bin = Inr b'"
    and b': "rela b' = 0x1060" "relasz b' = 24" "relaent b' = 24" "symtab b' = 0x1040"
    using section_parse by blast
  note t = ParseDynamic_tables [OF p section_bin_sel(5-7)]
  from t b' have n: "length (relas b') = 1" and y: "symbol_table section_mem (strsz b') 0x1040 (symtabs b')"
    by simp_all
  from t b' n have "read_Rela section_mem 0x1060 = Inr (relas b' ! 0)"
    by (auto dest: spec [of _ "0 :: nat"])
  with n section_reads(2)
  have "relas b' = [\<lparr>r_offset = 0x30, r_info = 8, r_addend = 0x44\<rparr>]" by (cases "relas b'") auto
  with p y show ?thesis by blast
qed

end
