(* ===== verification/Load_Returns.thy ===== *)
theory Load_Returns
  imports Dynamic_Section Images
begin

text \<open>
  When an ELF file loads: conditions on the file, the kernel and the process under which the
  constructor of \<open>ELFBinary\<close> and \<open>Load\<close> return, and what the constructor reads.
\<close>

section \<open>The constructor\<close>

text \<open>The header of a file and its program headers, read from the file's bytes.\<close>

definition header_of :: "byte list \<Rightarrow> Elf64_Ehdr" where
  "header_of content = Ehdr_of (take sizeof_Ehdr content)"

definition phdr_offset :: "byte list \<Rightarrow> nat \<Rightarrow> nat" where
  "phdr_offset content i =
     unat (e_phoff (header_of content)) + i * unat (e_phentsize (header_of content))"

definition phdr_of :: "byte list \<Rightarrow> nat \<Rightarrow> Elf64_Phdr" where
  "phdr_of content i = Phdr_of (take sizeof_Phdr (drop (phdr_offset content i) content))"

definition phdrs_of :: "byte list \<Rightarrow> Elf64_Phdr list" where
  "phdrs_of content = map (phdr_of content) [0..<unat (e_phnum (header_of content))]"

text \<open>The header and the table lie inside the file, and the products of indices fit an \<open>int\<close>.\<close>

definition headers_inside :: "byte list \<Rightarrow> bool" where
  "headers_inside content \<longleftrightarrow> sizeof_Ehdr \<le> length content \<and> length content + 4095 < 2 ^ 64 \<and>
     (\<forall>i < unat (e_phnum (header_of content)). phdr_offset content i + sizeof_Phdr \<le> length content \<and>
        i * unat (e_phentsize (header_of content)) < 2 ^ 31)"

text \<open>The last header of a type, \<open>d\<close> if there is none.\<close>

definition last_phdr :: "u32 \<Rightarrow> Elf64_Phdr option \<Rightarrow> Elf64_Phdr list \<Rightarrow> Elf64_Phdr option" where
  "last_phdr t d phs = fold (\<lambda>ph d. if p_type ph = t then Some ph else d) phs d"

lemma add_phdr_fold:
  "file_phdrs (fold (\<lambda>ph b. add_phdr b ph) phs b) = file_phdrs b @ phs"
  "file_tls (fold (\<lambda>ph b. add_phdr b ph) phs b) = last_phdr PT_TLS (file_tls b) phs"
  "has_tls (fold (\<lambda>ph b. add_phdr b ph) phs b) \<longleftrightarrow> has_tls b \<or> (\<exists>ph \<in> set phs. p_type ph = PT_TLS)"
  "Some (file_dynamic (fold (\<lambda>ph b. add_phdr b ph) phs b)) =
     last_phdr PT_DYNAMIC (Some (file_dynamic b)) phs"
  "file_base_addr (fold (\<lambda>ph b. add_phdr b ph) phs b) = file_base_addr b"
  "ehdr (fold (\<lambda>ph b. add_phdr b ph) phs b) = ehdr b"
  by (induction phs arbitrary: b) (auto simp: add_phdr_def Let_def last_phdr_def)

lemma phdr_loop_fold:
  "(\<And>i. i \<in> set is \<Longrightarrow> read_Phdr m (phdr_addr b i) = Inr (f i)) \<Longrightarrow>
    foldR (\<lambda>b i. rbind (read_Phdr m (phdr_addr b i)) (\<lambda>ph. Inr (add_phdr b ph))) b is =
    Inr (fold (\<lambda>ph b. add_phdr b ph) (map f is) b)"
proof (induction "is" arbitrary: b)
  case Nil
  then show ?case by simp
next
  case (Cons i "is")
  have "phdr_addr (add_phdr b (f i)) = phdr_addr b" by (simp add: phdr_addr_def add_phdr_file fun_eq_iff)
  with Cons show ?case by simp
qed

lemma scast_small: "unat w < 2 ^ 31 \<Longrightarrow> (scast (w :: u32) :: u64) = of_nat (unat w)"
proof -
  assume h: "unat w < 2 ^ 31"
  then have "uint w < 2 ^ 31" using of_nat_less_iff [of "unat w" "2 ^ 31", where 'a = int] by simp
  moreover have "- (2 ^ 31) \<le> uint w" by (rule order_trans [of _ 0]) simp_all
  ultimately have "signed_take_bit 31 (uint w) = uint w"
    by (intro signed_take_bit_int_eq_self)
  then have "sint w = int (unat w)" by (simp add: sint_uint)
  then have "(of_int (sint w) :: u64) = of_nat (unat w)" by (simp only: of_int_of_nat_eq)
  then show ?thesis by (simp only: scast_eq)
qed

lemma phdr_addr_offset:
  assumes "file_base_addr b = p" and "ehdr b = header_of content"
    and "i * unat (e_phentsize (header_of content)) < 2 ^ 31"
  shows "phdr_addr b i = p + of_nat (phdr_offset content i)"
proof -
  let ?z = "e_phentsize (header_of content)"
  have "unat (of_nat k :: u32) = k" if "k < 2 ^ 31" for k
    using that by (simp add: unsigned_of_nat take_bit_nat_eq_self)
  from this [OF assms(3)] have u: "unat (of_nat i * ucast ?z :: u32) = i * unat ?z" by simp
  from u have "scast (of_nat i * ucast ?z :: u32) = (of_nat (i * unat ?z) :: u64)"
    using scast_small [of "of_nat i * ucast ?z"] assms(3) by (simp only:)
  then show ?thesis by (simp add: phdr_addr_def assms(1,2) phdr_offset_def add.assoc)
qed

lemma read_in_file:
  assumes "unat p + unat n < 2 ^ 64" and "length content \<le> unat n" and "off + k \<le> length content"
  shows "read_bytes (map_at m p n (file_byte content)) (p + of_nat off) k = Inr (take k (drop off content))"
proof -
  have "map_at m p n (file_byte content) (p + of_nat off + of_nat i) = Some (content ! (off + i))"
    if "i < k" for i
  proof -
    have "unat (of_nat (off + i) :: u64) = off + i" using that assms by (intro unat_of_nat_u64) simp
    moreover have "p + of_nat off + of_nat i - p = of_nat (off + i)" by simp
    ultimately have "unat (p + of_nat off + of_nat i - p) = off + i" by (simp only:)
    with that assms show ?thesis by (simp add: map_at_def file_byte_def)
  qed
  with assms(3) show ?thesis by (simp add: read_bytes_iff)
qed

lemma mapped_file:
  assumes "unat p + unat n < 2 ^ 64" and "off + k \<le> unat n"
  shows "mapped (map_at m p n f) (p + of_nat off) k"
  unfolding mapped_def
proof (intro allI impI)
  fix i assume "i < k"
  then have "unat (of_nat (off + i) :: u64) = off + i" using assms by (intro unat_of_nat_u64) simp
  moreover have "p + of_nat off + of_nat i - p = of_nat (off + i)" by simp
  ultimately have "unat (p + of_nat off + of_nat i - p) = off + i" by (simp only:)
  with \<open>i < k\<close> assms show "map_at m p n f (p + of_nat off + of_nat i) \<noteq> None" by (simp add: map_at_def)
qed

text \<open>
  What the constructor returns: the headers of the file, its last \<open>PT_DYNAMIC\<close> and its last
  \<open>PT_TLS\<close> segment.
\<close>

definition opened_binary :: "path \<Rightarrow> addr \<Rightarrow> byte list \<Rightarrow> ELFBinary" where
  "opened_binary path p content =
     fold (\<lambda>ph b. add_phdr b ph) (phdrs_of content) (new_ELFBinary path p (header_of content))"

definition opened_proc :: "addr \<Rightarrow> byte list \<Rightarrow> proc \<Rightarrow> proc" where
  "opened_proc p content P =
     (let n = page_ceil (of_nat (length content))
      in P\<lparr>fds := fds P - 1, mem := map_at (mem P) p n (file_byte content), vmas := vmas P @ [(p, n, 7)]\<rparr>)"

lemma opened_binary_sel:
  "ehdr (opened_binary path p content) = header_of content"
  "file_phdrs (opened_binary path p content) = phdrs_of content"
  "file_base_addr (opened_binary path p content) = p"
  "file_tls (opened_binary path p content) = last_phdr PT_TLS None (phdrs_of content)"
  "has_tls (opened_binary path p content) \<longleftrightarrow> (\<exists>ph \<in> set (phdrs_of content). p_type ph = PT_TLS)"
  "Some (file_dynamic (opened_binary path p content)) =
     last_phdr PT_DYNAMIC (Some zero_Phdr) (phdrs_of content)"
  by (simp_all add: opened_binary_def add_phdr_fold new_ELFBinary_def)

text \<open>The mapping of a file: neither empty nor past the end of the address space.\<close>

lemma file_fits:
  assumes "headers_inside content" and "mmap_fresh os"
    and "os_pick os vs 0 (page_ceil (of_nat (length content))) = Some p"
  shows "page_ceil (of_nat (length content)) \<noteq> (0 :: u64)" "24 < (of_nat (length content) :: u64)"
    and "unat p + unat (page_ceil (of_nat (length content))) < 2 ^ 64" "p \<noteq> MAP_FAILED"
    and "length content \<le> unat (page_ceil (of_nat (length content)))"
proof -
  let ?n = "page_ceil (of_nat (length content))" and ?len = "of_nat (length content) :: u64"
  from assms(1) have len: "sizeof_Ehdr \<le> length content" "length content + 4095 < 2 ^ 64"
    by (simp_all add: headers_inside_def)
  then have ul: "unat ?len = length content" by (intro unat_of_nat_u64) simp
  then show n: "length content \<le> unat ?n" and n0: "?n \<noteq> 0" and "24 < ?len"
    using len by (auto simp: unat_page_ceil word_less_nat_alt unat_eq_0 [symmetric])
  from assms(2,3) show fit: "unat p + unat ?n < 2 ^ 64" by (auto simp: mmap_fresh_def)
  show "p \<noteq> MAP_FAILED"
  proof
    assume "p = MAP_FAILED"
    then have "unat p = 2 ^ 64 - 1" by (simp add: MAP_FAILED_def unat_minus_one_u64)
    with fit n len show False by simp
  qed
qed

lemma ELFBinary_ctor_opens:
  assumes "os_file os path = Some content" and "0 < fds P" and "headers_inside content"
    and "mmap_fresh os" and "os_pick os (vmas P) 0 (page_ceil (of_nat (length content))) = Some p"
  shows "ELFBinary_ctor os path P = Inr (opened_binary path p content, opened_proc p content P)"
proof -
  let ?n = "page_ceil (of_nat (length content))" and ?len = "of_nat (length content) :: u64"
  let ?m = "map_at (mem P) p ?n (file_byte content)" and ?b = "new_ELFBinary path p (header_of content)"
  note f = file_fits [OF assms(3-5)]
  have len: "sizeof_Ehdr \<le> length content" using assms(3) by (simp add: headers_inside_def)
  have "read_Ehdr ?m p = Inr (header_of content)"
    using read_in_file [OF f(3,5), of 0 sizeof_Ehdr] len by (simp add: read_defs header_of_def)
  moreover have "read_Phdr ?m (phdr_addr ?b i) = Inr (phdr_of content i)"
    if "i \<in> set [0..<unat (e_phnum (header_of content))]" for i
  proof -
    from that assms(3) have i: "phdr_offset content i + sizeof_Phdr \<le> length content"
      "i * unat (e_phentsize (header_of content)) < 2 ^ 31" by (simp_all add: headers_inside_def)
    have "phdr_addr ?b i = p + of_nat (phdr_offset content i)"
      by (rule phdr_addr_offset [OF _ _ i(2)]) (simp_all add: new_ELFBinary_def)
    with read_in_file [OF f(3,5) i(1)] show ?thesis by (simp add: read_defs phdr_of_def)
  qed
  note phdr_loop_fold [of "[0..<unat (e_phnum (header_of content))]", OF this]
  ultimately show ?thesis
    using assms(1,2,5) f(1,2,4)
    by (simp add: ELFBinary_ctor_def open_file_def mmap_file_def mmap_with_def CHECK_def phdrs_of_def
        Let_def opened_binary_def opened_proc_def)
qed

section \<open>The segments\<close>

text \<open>
  Loadable segments of a file based at its base address in process \<open>P\<close>: none of them is
  empty, wraps or has more file than memory, all lie in the user address space, their pages
  are ascending, disjoint and free, and their file parts lie inside the mapped file.
\<close>

definition seg_free :: "proc \<Rightarrow> ELFBinary \<Rightarrow> Elf64_Phdr \<Rightarrow> bool" where
  "seg_free P b ph \<longleftrightarrow> 0 < unat (p_memsz ph) \<and> p_filesz ph \<le> p_memsz ph \<and>
     0x10000 \<le> unat (p_vaddr ph + base_addr b) \<and>
     unat (p_vaddr ph + base_addr b) + unat (p_memsz ph) + 4096 < 2 ^ 47 \<and>
     list_all (disjoint_area (seg_start b ph) (seg_end b ph - seg_start b ph)) (vmas P) \<and>
     mapped (mem P) (file_base_addr b + p_offset ph) (unat (p_filesz ph))"

abbreviation load_phdrs :: "Elf64_Phdr list \<Rightarrow> Elf64_Phdr list" where
  "load_phdrs phs \<equiv> filter (\<lambda>ph. p_type ph = PT_LOAD) phs"

definition segs_free :: "proc \<Rightarrow> ELFBinary \<Rightarrow> Elf64_Phdr list \<Rightarrow> bool" where
  "segs_free P b phs \<longleftrightarrow> (\<forall>ph \<in> set (load_phdrs phs). seg_free P b ph) \<and>
     sorted_wrt (\<lambda>p q. seg_end b p \<le> seg_start b q) (load_phdrs phs)"

lemma seg_pages:
  assumes "0 < unat (p_memsz ph)" and "0x10000 \<le> unat (p_vaddr ph + base_addr b)"
    and "unat (p_vaddr ph + base_addr b) + unat (p_memsz ph) + 4096 < 2 ^ 47"
  defines "D \<equiv> unat (p_vaddr ph + base_addr b)"
  shows "unat (seg_start b ph) = D div 4096 * 4096"
    and "unat (seg_end b ph) = (D + unat (p_memsz ph) + 4095) div 4096 * 4096"
    and "unat (seg_end b ph - seg_start b ph) = unat (seg_end b ph) - unat (seg_start b ph)"
    and "unat (seg_start b ph) < unat (seg_end b ph)"
    and "unat (p_vaddr ph + base_addr b + p_memsz ph) = D + unat (p_memsz ph)"
proof -
  show s: "unat (seg_start b ph) = D div 4096 * 4096"
    by (simp add: seg_start_def unat_page_floor D_def)
  show a: "unat (p_vaddr ph + base_addr b + p_memsz ph) = D + unat (p_memsz ph)"
    using assms(3) by (simp add: unat_add_u64 D_def)
  have "p_vaddr ph + p_memsz ph + base_addr b = p_vaddr ph + base_addr b + p_memsz ph"
    by (simp add: ac_simps)
  then have "seg_end b ph = page_ceil (p_vaddr ph + base_addr b + p_memsz ph)" by (simp only: seg_end_def)
  then show e: "unat (seg_end b ph) = (D + unat (p_memsz ph) + 4095) div 4096 * 4096"
    using a assms(3) by (simp add: unat_page_ceil D_def)
  have "D div 4096 * 4096 \<le> D" "D < (D + unat (p_memsz ph) + 4095) div 4096 * 4096"
    using assms(1) by linarith+
  with s e show lt: "unat (seg_start b ph) < unat (seg_end b ph)" by linarith
  then show "unat (seg_end b ph - seg_start b ph) = unat (seg_end b ph) - unat (seg_start b ph)"
    by (intro unat_sub) (simp add: word_le_nat_alt)
qed

text \<open>The kernel maps a free segment where it belongs, and its bytes lie inside the mapping.\<close>

lemma seg_maps:
  assumes "mmap_honours os" and "seg_free P b ph"
  shows "mmap_anon os (seg_start b ph) (seg_end b ph - seg_start b ph) prot P =
    (seg_start b ph, P\<lparr>mem := map_at (mem P) (seg_start b ph) (seg_end b ph - seg_start b ph) (\<lambda>_. 0),
      vmas := vmas P @ [(seg_start b ph, seg_end b ph - seg_start b ph, prot)]\<rparr>)"
proof -
  let ?s = "seg_start b ph" and ?e = "seg_end b ph" and ?D = "p_vaddr ph + base_addr b"
  from assms(2) have h: "0 < unat (p_memsz ph)" "0x10000 \<le> unat ?D"
    "unat ?D + unat (p_memsz ph) + 4096 < 2 ^ 47"
    and free: "list_all (disjoint_area ?s (?e - ?s)) (vmas P)" by (simp_all add: seg_free_def)
  note pg = seg_pages [OF h]
  have lo: "0x10000 \<le> unat ?s" unfolding pg(1) using div_le_mono [OF h(2), of 4096] by simp
  have al: "unat ?s mod 4096 = 0" unfolding pg(1) by simp
  have hi: "unat ?s + unat (?e - ?s) < 2 ^ 47"
    using pg(3,4) div_times_less_eq_dividend [of "unat ?D + unat (p_memsz ph) + 4095" 4096] pg(2) h(3) by linarith
  have n0: "?e - ?s \<noteq> 0" "?s \<noteq> 0" using pg(4) lo by auto
  with assms(1) al lo hi free have "os_pick os (vmas P) ?s (?e - ?s) = Some ?s"
    unfolding mmap_honours_def by simp
  with n0 show ?thesis by (simp add: mmap_anon_def mmap_with_def)
qed

lemma seg_inside:
  assumes "seg_free P b ph" and "i < unat (p_memsz ph)"
  shows "unat (p_vaddr ph + base_addr b + of_nat i - seg_start b ph) < unat (seg_end b ph - seg_start b ph)"
proof -
  let ?s = "seg_start b ph" and ?e = "seg_end b ph" and ?D = "p_vaddr ph + base_addr b"
  from assms(1) have h: "0 < unat (p_memsz ph)" "0x10000 \<le> unat ?D"
    "unat ?D + unat (p_memsz ph) + 4096 < 2 ^ 47" by (simp_all add: seg_free_def)
  note pg = seg_pages [OF h]
  have "unat (of_nat i :: u64) = i" using assms(2) h(3) by (intro unat_of_nat_u64) simp
  then have "unat (?D + of_nat i) = unat ?D + i"
    using assms(2) h(3) by (subst unat_add_u64) simp_all
  moreover have "unat ?s \<le> unat ?D" "unat ?D + unat (p_memsz ph) \<le> unat ?e"
    unfolding pg(1,2) by linarith+
  moreover have "unat ?s + unat (?e - ?s) \<le> 2 ^ 64" using pg(3,4) unat_u64_less [of ?e] by simp
  ultimately show ?thesis
    using unat_offset_range [of ?s "unat (?e - ?s)" "?D + of_nat i"] pg(3,4) assms(2) by simp
qed

lemma load_segment_returns:
  assumes "mmap_honours os" and "p_type ph = PT_LOAD" and "seg_free P b ph"
  shows "\<exists>P'. load_segment os (b, P) ph = Inr (b\<lparr>end_addr := seg_end b ph\<rparr>, P') \<and>
    vmas P' = vmas P @ [(seg_start b ph, seg_end b ph - seg_start b ph, load_flags ph)] \<and>
    (\<forall>x. mem P x \<noteq> None \<longrightarrow> mem P' x \<noteq> None)"
proof -
  let ?s = "seg_start b ph" and ?e = "seg_end b ph" and ?D = "p_vaddr ph + base_addr b"
  from assms(3) have h: "0 < unat (p_memsz ph)" "0x10000 \<le> unat ?D"
    "unat ?D + unat (p_memsz ph) + 4096 < 2 ^ 47" and le: "p_filesz ph \<le> p_memsz ph"
    and src: "mapped (mem P) (file_base_addr b + p_offset ph) (unat (p_filesz ph))"
    by (simp_all add: seg_free_def)
  define P1 where "P1 = P\<lparr>mem := map_at (mem P) ?s (?e - ?s) (\<lambda>_. 0),
      vmas := vmas P @ [(?s, ?e - ?s, load_flags ph)]\<rparr>"
  have mm: "mmap_anon os ?s (?e - ?s) (load_flags ph) P = (?s, P1)"
    unfolding P1_def using assms(1,3) by (rule seg_maps)
  have keep: "mem P1 x \<noteq> None" if "mem P x \<noteq> None" for x using that by (simp add: P1_def map_at_def)
  note pg = seg_pages [OF h]
  have c: "?s \<le> ?D" "?D + p_memsz ph \<le> ?e"
    unfolding word_le_nat_alt pg(1,2,5) by linarith+
  have "mapped (mem P1) ?D (unat (p_filesz ph))"
    using seg_inside [OF assms(3)] le by (simp add: mapped_def P1_def map_at_def word_le_nat_alt)
  moreover have "mapped (mem P1) (file_base_addr b + p_offset ph) (unat (p_filesz ph))"
    using src keep by (simp add: mapped_def)
  ultimately obtain m where cp: "memcpy (mem P1) ?D (file_base_addr b + p_offset ph) (p_filesz ph) = Inr m"
    using memcpy_ok by blast
  have "mem P x \<noteq> None \<longrightarrow> m x \<noteq> None" for x using keep memcpy_mapped [OF cp] by simp
  with assms(2) mm c cp show ?thesis
    by (simp add: load_segment_def CHECK_def Let_def) (simp add: P1_def)
qed

lemma disjoint_after:
  assumes "unat e \<le> unat s'" and "unat s + unat (e - s) = unat e"
  shows "disjoint_area s' n (s, e - s, prot)"
  using assms by (simp add: disjoint_area_def)

lemma seg_free_later:
  assumes "seg_free P b q" and "vmas P' = vmas P @ [(s, n, prot)]"
    and "disjoint_area (seg_start b q) (seg_end b q - seg_start b q) (s, n, prot)"
    and "\<forall>x. mem P x \<noteq> None \<longrightarrow> mem P' x \<noteq> None"
  shows "seg_free P' (b\<lparr>end_addr := e\<rparr>) q"
  using assms by (simp add: seg_free_def seg_start_def seg_end_def mapped_def)

lemma segments_return:
  assumes "mmap_honours os"
  shows "segs_free P b phs \<Longrightarrow> \<exists>r. foldR (load_segment os) (b, P) phs = Inr r"
proof (induction phs arbitrary: b P)
  case Nil
  then show ?case by simp
next
  case (Cons ph phs)
  show ?case
  proof (cases "p_type ph = PT_LOAD")
    case False
    with Cons show ?thesis by (simp add: load_segment_def segs_free_def)
  next
    case True
    with Cons.prems have fr: "seg_free P b ph" "\<forall>q \<in> set (load_phdrs phs). seg_free P b q"
      and after: "\<forall>q \<in> set (load_phdrs phs). seg_end b ph \<le> seg_start b q"
      and srt: "sorted_wrt (\<lambda>p q. seg_end b p \<le> seg_start b q) (load_phdrs phs)"
      by (auto simp: segs_free_def)
    let ?e = "seg_end b ph" and ?s = "seg_start b ph"
    from load_segment_returns [OF assms True fr(1)] obtain P' where
      one: "load_segment os (b, P) ph = Inr (b\<lparr>end_addr := ?e\<rparr>, P')"
      and v: "vmas P' = vmas P @ [(?s, ?e - ?s, load_flags ph)]"
      and k: "\<forall>x. mem P x \<noteq> None \<longrightarrow> mem P' x \<noteq> None" by blast
    have se: "unat ?s + unat (?e - ?s) = unat ?e"
      using fr(1) seg_pages(3,4) [of ph b] by (simp add: seg_free_def)
    have "seg_free P' (b\<lparr>end_addr := ?e\<rparr>) q" if q: "q \<in> set (load_phdrs phs)" for q
    proof (rule seg_free_later [OF _ v _ k])
      show "seg_free P b q" using fr(2) q by blast
      have "unat ?e \<le> unat (seg_start b q)" using after q by (simp add: word_le_nat_alt)
      from disjoint_after [OF this se]
      show "disjoint_area (seg_start b q) (seg_end b q - seg_start b q) (?s, ?e - ?s, load_flags ph)" .
    qed
    moreover have "sorted_wrt (\<lambda>p q. seg_end (b\<lparr>end_addr := ?e\<rparr>) p \<le> seg_start (b\<lparr>end_addr := ?e\<rparr>) q)
        (load_phdrs phs)" using srt by (simp add: seg_end_def seg_start_def)
    ultimately have "segs_free P' (b\<lparr>end_addr := ?e\<rparr>) phs" unfolding segs_free_def by blast
    from Cons.IH [OF this] one show ?thesis by simp
  qed
qed

section \<open>The dynamic section\<close>

definition entry_ok :: "memory \<Rightarrow> addr \<Rightarrow> u64 \<Rightarrow> u64 \<Rightarrow> bool" where
  "entry_ok m str t v \<longleftrightarrow>
     (t \<in> {DT_NEEDED, DT_RUNPATH, DT_RPATH} \<longrightarrow> (\<exists>s. read_cstr m (str + v) = Inr s)) \<and>
     (t = DT_PLTREL \<longrightarrow> v = DT_RELA) \<and> (t = DT_SYMENT \<longrightarrow> v = of_nat sizeof_Sym)"

text \<open>
  A dynamic section with the entries \<open>ds\<close> that \<open>ParseDynamic\<close> accepts: a string table
  with all names it refers to, relocation tables of whole \<open>Elf64_Rela\<close> entries in mapped
  memory, and a symbol table whose symbols can be shown.
\<close>

definition dyn_ok :: "memory \<Rightarrow> ELFBinary \<Rightarrow> (u64 \<times> u64) list \<Rightarrow> bool" where
  "dyn_ok m b ds \<longleftrightarrow>
     (let base = base_addr b; str = last_ptr base DT_STRTAB (strtab b) ds;
          exec = (e_type (ehdr b) = ET_EXEC);
          rl = last_ptr base DT_RELA (rela b) ds; rlsz = unat (last_value DT_RELASZ (relasz b) ds);
          jr = last_ptr base DT_JMPREL (jmprel b) ds; jrsz = unat (last_value DT_PLTRELSZ (pltrelsz b) ds);
          st = last_ptr base DT_SYMTAB (symtab b) ds
      in (base \<noteq> 0 \<or> exec) \<and> (str \<noteq> 0 \<or> exec) \<and> sizeof_Dyn dvd unat (p_filesz (file_dynamic b)) \<and>
         (\<forall>d \<in> set ds. entry_ok m str (fst d) (snd d)) \<and>
         (rl \<noteq> 0 \<longrightarrow> last_value DT_RELAENT (relaent b) ds = of_nat sizeof_Rela \<and>
            sizeof_Rela dvd rlsz \<and> mapped m rl rlsz) \<and>
         (jr \<noteq> 0 \<longrightarrow> DT_PLTREL \<in> fst ` set ds \<and> sizeof_Rela dvd jrsz \<and> mapped m jr jrsz) \<and>
         (st \<noteq> 0 \<longrightarrow> (\<exists>syms. symbol_table m (last_value DT_STRSZ (strsz b) ds) st syms \<and>
            unat st + sizeof_Sym * Suc (length syms) < 2 ^ 64 \<and>
            (\<forall>s \<in> set (symtabs b @ syms). \<exists>shown. ShowSym m s str = Inr shown))))"

lemma set_dyn_ok: "entry_ok m (strtab b) t v \<Longrightarrow> \<exists>b'. set_dyn m b t v = Inr b'"
  by (auto simp: entry_ok_def set_dyn_def CHECK_def)

lemma set_dyn_loop_ok:
  "\<forall>d \<in> set ds. entry_ok m (strtab b) (fst d) (snd d) \<Longrightarrow>
    \<exists>b'. foldR (\<lambda>b d. set_dyn m b (fst d) (snd d)) b ds = Inr b'"
proof (induction ds arbitrary: b)
  case Nil
  then show ?case by simp
next
  case (Cons d ds)
  then obtain b1 where one: "set_dyn m b (fst d) (snd d) = Inr b1" using set_dyn_ok by fastforce
  with Cons set_dyn_keeps [OF one] show ?case by simp
qed

lemma set_dyn_pltrel:
  "set_dyn m b t v = Inr b' \<Longrightarrow> entry_ok m str t v \<Longrightarrow>
    (if t = DT_PLTREL then pltrel b' = DT_RELA \<and> pltrelent b' = of_nat sizeof_Rela
     else pltrel b' = pltrel b \<and> pltrelent b' = pltrelent b)"
  by (auto simp: entry_ok_def set_dyn_def res_simps split: if_splits)

lemma set_dyn_loop_pltrel:
  "foldR (\<lambda>b d. set_dyn m b (fst d) (snd d)) b ds = Inr b' \<Longrightarrow>
    \<forall>d \<in> set ds. entry_ok m str (fst d) (snd d) \<Longrightarrow>
    DT_PLTREL \<in> fst ` set ds \<or> pltrel b = DT_RELA \<and> pltrelent b = of_nat sizeof_Rela \<Longrightarrow>
    pltrel b' = DT_RELA \<and> pltrelent b' = of_nat sizeof_Rela"
proof (induction ds arbitrary: b)
  case Nil
  then show ?case by simp
next
  case (Cons d ds)
  then obtain b1 where one: "set_dyn m b (fst d) (snd d) = Inr b1"
    and rest: "foldR (\<lambda>b d. set_dyn m b (fst d) (snd d)) b1 ds = Inr b'" by (auto simp: res_simps)
  from Cons.prems(2) have "entry_ok m str (fst d) (snd d)" by simp
  from set_dyn_pltrel [OF one this] Cons.prems(2,3)
  have "DT_PLTREL \<in> fst ` set ds \<or> pltrel b1 = DT_RELA \<and> pltrelent b1 = of_nat sizeof_Rela"
    by (auto split: if_splits)
  with Cons.IH [OF rest] Cons.prems(2) show ?case by simp
qed

lemma read_relas_ok:
  assumes "mapped m a (sizeof_Rela * n)"
  shows "\<exists>rs. read_relas m a n = Inr rs"
  unfolding read_relas_def
proof (rule mapR_total)
  fix i
  assume i: "i \<in> set [0..<n]"
  have "mapped m (a + of_nat sizeof_Rela * of_nat i) sizeof_Rela"
    unfolding mapped_def
  proof (intro allI impI)
    fix k :: nat assume "k < sizeof_Rela"
    with i have "sizeof_Rela * i + k < sizeof_Rela * n" by simp
    with assms have "m (a + of_nat (sizeof_Rela * i + k)) \<noteq> None" unfolding mapped_def by blast
    then show "m (a + of_nat sizeof_Rela * of_nat i + of_nat k) \<noteq> None" by (simp add: add.assoc)
  qed
  from read_bytes_ok [OF this] show "\<exists>y. read_Rela m (a + of_nat sizeof_Rela * of_nat i) = Inr y"
    by (auto simp: read_defs)
qed

lemma read_Sym_st_name: "read_Sym m a = Inr e \<Longrightarrow> read_st_name m a = Inr (st_name e)"
proof -
  assume h: "read_Sym m a = Inr e"
  then obtain bs where bs: "read_bytes m a sizeof_Sym = Inr bs" by (auto simp: read_defs res_simps)
  then have "read_bytes m a 4 = Inr (take 4 bs)" by (auto simp: read_bytes_iff)
  then obtain name where "read_st_name m a = Inr name" by (simp add: read_st_name_def)
  with read_Sym_name [OF h this] show ?thesis by simp
qed

lemma symtab_scan_returns:
  "(\<forall>i < length syms. read_Sym m (a + of_nat (sizeof_Sym * i)) = Inr (syms ! i)) \<Longrightarrow>
    \<forall>s \<in> set syms. ucast (st_name s) < limit \<Longrightarrow> table_end m limit a syms \<Longrightarrow>
    unat a + sizeof_Sym * length syms < 2 ^ 64 \<Longrightarrow> symtab_scan m limit a = Inr syms"
proof (induction syms arbitrary: a)
  case Nil
  then show ?case by (subst symtab_scan.simps) (auto simp: table_end_def)
next
  case (Cons s syms)
  from Cons.prems(1) have s: "read_Sym m a = Inr s" by force
  have a: "unat (a + of_nat sizeof_Sym) = unat a + sizeof_Sym"
    using Cons.prems(4) by (subst unat_add_u64) simp_all
  have "read_Sym m (a + of_nat sizeof_Sym + of_nat (sizeof_Sym * i)) = Inr (syms ! i)" if "i < length syms" for i
    using Cons.prems(1) that by (auto dest!: spec [of _ "Suc i"] simp: algebra_simps)
  moreover have "table_end m limit (a + of_nat sizeof_Sym) syms"
    using Cons.prems(3) by (simp add: table_end_def algebra_simps)
  ultimately have "symtab_scan m limit (a + of_nat sizeof_Sym) = Inr syms"
    using Cons.prems(2,4) a by (intro Cons.IH) auto
  with s read_Sym_st_name [OF s] Cons.prems(2,4) show ?case
    by (subst symtab_scan.simps) simp
qed

lemma dyn_steps_return:
  assumes "dyn_entries m b = Inr ds" and "dyn_ok m b ds"
  defines "n \<equiv> unat (p_filesz (file_dynamic b) div of_nat sizeof_Dyn)"
  obtains b1 b2 where "foldR (parse_strtab m) b [0..<n] = Inr b1" "foldR (parse_dyn m) b1 [0..<n] = Inr b2"
    "strtab b1 = last_ptr (base_addr b) DT_STRTAB (strtab b) ds" "ehdr b1 = ehdr b"
    "rela b2 = last_ptr (base_addr b) DT_RELA (rela b) ds"
    "relasz b2 = last_value DT_RELASZ (relasz b) ds" "relaent b2 = last_value DT_RELAENT (relaent b) ds"
    "jmprel b2 = last_ptr (base_addr b) DT_JMPREL (jmprel b) ds"
    "pltrelsz b2 = last_value DT_PLTRELSZ (pltrelsz b) ds"
    "symtab b2 = last_ptr (base_addr b) DT_SYMTAB (symtab b) ds" "strtab b2 = strtab b1"
    "strsz b2 = last_value DT_STRSZ (strsz b) ds" "symtabs b2 = symtabs b"
    "DT_PLTREL \<in> fst ` set ds \<Longrightarrow> pltrel b2 = DT_RELA \<and> pltrelent b2 = of_nat sizeof_Rela"
proof -
  let ?b1 = "fold (\<lambda>d b. set_str b d) ds b"
  from assms(1) have ds: "mapR (dyn_entry m b) [0..<n] = Inr ds" by (simp add: dyn_entries_def n_def)
  note p1 = parse_strtab_entries [OF ds]
  have "mapR (dyn_entry m ?b1) [0..<n] = Inr ds"
    using ds dyn_entry_place [of ?b1 b m] by (simp add: set_str_fold)
  note p2 = parse_dyn_entries [OF this]
  have ok: "\<forall>d \<in> set ds. entry_ok m (strtab ?b1) (fst d) (snd d)"
    using assms(2) by (simp add: dyn_ok_def Let_def set_str_fold)
  from set_dyn_loop_ok [OF ok] obtain b2 where
    l: "foldR (\<lambda>b d. set_dyn m b (fst d) (snd d)) ?b1 ds = Inr b2" by blast
  have "ehdr ?b1 = ehdr b" by (induction ds arbitrary: b) (auto simp: set_str_def)
  moreover note set_dyn_fold [OF l] set_dyn_loop_pltrel [OF l ok]
  ultimately show ?thesis using p1 p2 l
    by (intro that [of ?b1 b2]) (simp_all add: set_str_fold set_str_other)
qed

lemma parse_tables_return:
  assumes "rela b \<noteq> 0 \<Longrightarrow> relaent b = of_nat sizeof_Rela \<and> sizeof_Rela dvd unat (relasz b) \<and>
      mapped m (rela b) (unat (relasz b))"
    and "jmprel b \<noteq> 0 \<Longrightarrow> pltrel b = DT_RELA \<and> pltrelent b = of_nat sizeof_Rela \<and>
      sizeof_Rela dvd unat (pltrelsz b) \<and> mapped m (jmprel b) (unat (pltrelsz b))"
  shows "\<exists>rs qs. rbind (parse_relas m b) (parse_pltrelas m) =
    Inr (b\<lparr>relas := relas b @ rs, pltrelas := pltrelas b @ qs\<rparr>)"
proof -
  have w: "\<exists>rs. read_relas m a (unat (z div of_nat sizeof_Rela)) = Inr rs" "z mod of_nat sizeof_Rela = 0"
    if "sizeof_Rela dvd unat z" "mapped m a (unat z)" for a z :: u64
    using that read_relas_ok [of m a "unat z div sizeof_Rela"]
    by (simp_all add: unat_div unat_mod unat_eq_0 [symmetric] dvd_eq_mod_eq_0)
  have "\<exists>rs. parse_relas m b = Inr (b\<lparr>relas := relas b @ rs\<rparr>)"
  proof (cases "rela b = 0")
    case True
    then have "parse_relas m b = Inr (b\<lparr>relas := relas b @ []\<rparr>)" by (simp add: parse_relas_def)
    then show ?thesis ..
  next
    case False
    with assms(1) w [of "relasz b" "rela b"] show ?thesis by (auto simp: parse_relas_def CHECK_def)
  qed
  moreover have "\<exists>qs. parse_pltrelas m c = Inr (c\<lparr>pltrelas := pltrelas c @ qs\<rparr>)" if "c = b\<lparr>relas := rs\<rparr>" for c rs
  proof (cases "jmprel b = 0")
    case True
    then have "parse_pltrelas m c = Inr (c\<lparr>pltrelas := pltrelas c @ []\<rparr>)" by (simp add: that parse_pltrelas_def)
    then show ?thesis ..
  next
    case False
    with assms(2) w [of "pltrelsz b" "jmprel b"] show ?thesis by (auto simp: that parse_pltrelas_def CHECK_def)
  qed
  ultimately show ?thesis by fastforce
qed

lemma parse_symtab_returns:
  assumes "symtab b \<noteq> 0 \<Longrightarrow> symbol_table m (strsz b) (symtab b) syms \<and>
      unat (symtab b) + sizeof_Sym * Suc (length syms) < 2 ^ 64 \<and>
      (\<forall>s \<in> set (symtabs b @ syms). \<exists>shown. ShowSym m s (strtab b) = Inr shown)"
  shows "\<exists>b'. parse_symtab m b = Inr b'"
proof (cases "symtab b = 0")
  case True
  then show ?thesis by (simp add: parse_symtab_def)
next
  case False
  note h = assms [OF False]
  then obtain first rest where s: "syms = first # rest" by (auto simp: symbol_table_def neq_Nil_conv)
  let ?a = "symtab b" and ?a1 = "symtab b + of_nat sizeof_Sym"
  from h s have r: "\<forall>i < Suc (length rest). read_Sym m (?a + of_nat (sizeof_Sym * i)) = Inr ((first # rest) ! i)"
    and t: "table_end m (strsz b) ?a (first # rest)" "\<forall>x \<in> set rest. ucast (st_name x) < strsz b"
    by (simp_all add: symbol_table_def)
  from r have f: "read_Sym m ?a = Inr first" by force
  have u: "unat ?a1 = unat ?a + sizeof_Sym" using h s by (subst unat_add_u64) simp_all
  have "read_Sym m (?a1 + of_nat (sizeof_Sym * i)) = Inr (rest ! i)" if "i < length rest" for i
    using r that by (auto dest!: spec [of _ "Suc i"] simp: algebra_simps)
  moreover have "table_end m (strsz b) ?a1 rest" using t(1) by (simp add: table_end_def algebra_simps)
  ultimately have "symtab_scan m (strsz b) ?a1 = Inr rest"
    using t(2) u h s by (intro symtab_scan_returns) auto
  moreover have "\<exists>ys. mapR (\<lambda>s. ShowSym m s (strtab b)) (symtabs b @ first # rest) = Inr ys"
    using h s by (intro mapR_total) auto
  ultimately show ?thesis using f False by (auto simp: parse_symtab_def Let_def)
qed

lemma ParseDynamic_returns:
  assumes "dyn_entries m b = Inr ds" and "dyn_ok m b ds"
  shows "\<exists>b'. ParseDynamic m b = Inr b'"
proof -
  let ?n = "unat (p_filesz (file_dynamic b) div of_nat sizeof_Dyn)"
  obtain b1 b2 where p: "foldR (parse_strtab m) b [0..<?n] = Inr b1" "foldR (parse_dyn m) b1 [0..<?n] = Inr b2"
    "strtab b1 = last_ptr (base_addr b) DT_STRTAB (strtab b) ds" "ehdr b1 = ehdr b"
    and f: "rela b2 = last_ptr (base_addr b) DT_RELA (rela b) ds"
    "relasz b2 = last_value DT_RELASZ (relasz b) ds" "relaent b2 = last_value DT_RELAENT (relaent b) ds"
    "jmprel b2 = last_ptr (base_addr b) DT_JMPREL (jmprel b) ds"
    "pltrelsz b2 = last_value DT_PLTRELSZ (pltrelsz b) ds"
    "symtab b2 = last_ptr (base_addr b) DT_SYMTAB (symtab b) ds" "strtab b2 = strtab b1"
    "strsz b2 = last_value DT_STRSZ (strsz b) ds" "symtabs b2 = symtabs b"
    "DT_PLTREL \<in> fst ` set ds \<Longrightarrow> pltrel b2 = DT_RELA \<and> pltrelent b2 = of_nat sizeof_Rela"
    using dyn_steps_return [OF assms] by metis
  note ok = assms(2) [unfolded dyn_ok_def Let_def]
  obtain rs qs where t: "rbind (parse_relas m b2) (parse_pltrelas m) =
      Inr (b2\<lparr>relas := relas b2 @ rs, pltrelas := pltrelas b2 @ qs\<rparr>)" (is "_ = Inr ?b4")
    using parse_tables_return [of b2 m] ok f by auto
  obtain syms where "symtab b2 \<noteq> 0 \<Longrightarrow> symbol_table m (strsz b2) (symtab b2) syms \<and>
      unat (symtab b2) + sizeof_Sym * Suc (length syms) < 2 ^ 64 \<and>
      (\<forall>s \<in> set (symtabs b2 @ syms). \<exists>shown. ShowSym m s (strtab b2) = Inr shown)"
    using ok f p(3) by metis
  with parse_symtab_returns [of ?b4 m syms] obtain b' where "parse_symtab m ?b4 = Inr b'" by auto
  moreover have "p_filesz (file_dynamic b) mod of_nat sizeof_Dyn = 0"
    using ok by (simp add: unat_mod unat_eq_0 [symmetric] dvd_eq_mod_eq_0)
  ultimately show ?thesis
    using p t ok by (simp add: ParseDynamic_def Let_def CHECK_def rbind_assoc [symmetric])
qed

section \<open>Loading a file\<close>

lemma seg_free_ok: "segs_free P b phs \<Longrightarrow> \<forall>ph \<in> set phs. seg_ok (base_addr b) ph"
  by (auto simp: segs_free_def seg_free_def seg_ok_def)

lemma dyn_end_addr [simp]:
  "dyn_entries m (b\<lparr>end_addr := e\<rparr>) = dyn_entries m b" "dyn_ok m (b\<lparr>end_addr := e\<rparr>) ds = dyn_ok m b ds"
proof -
  have "dyn_entry m (b\<lparr>end_addr := e\<rparr>) = dyn_entry m b" by (rule dyn_entry_place) simp_all
  then show "dyn_entries m (b\<lparr>end_addr := e\<rparr>) = dyn_entries m b" by (simp add: dyn_entries_def)
  show "dyn_ok m (b\<lparr>end_addr := e\<rparr>) ds = dyn_ok m b ds" by (simp add: dyn_ok_def)
qed

lemma segs_free_end_addr [simp]: "segs_free P (b\<lparr>end_addr := e\<rparr>) phs = segs_free P b phs"
  by (simp add: segs_free_def seg_free_def seg_start_def seg_end_def)

lemma Load_returns:
  assumes "mmap_fresh os" and "mmap_honours os" and "proc_wf P"
    and "b' = b\<lparr>base_addr := if e_type (ehdr b) = ET_DYN then base else 0\<rparr>"
    and "segs_free P b' (file_phdrs b)"
    and "\<And>m. \<forall>ph \<in> set (file_phdrs b). seg_placed (mem P) m b' ph \<Longrightarrow>
      \<exists>ds. dyn_entries m b' = Inr ds \<and> dyn_ok m b' ds"
  shows "\<exists>r. Load os base b P = Inr r"
proof -
  let ?b = "b'\<lparr>end_addr := base_addr b'\<rparr>"
  from segments_return [OF assms(2), of P ?b "file_phdrs b"] assms(5) obtain b1 P1 where
    l: "foldR (load_segment os) (?b, P) (file_phdrs b) = Inr (b1, P1)" by auto
  from load_loop_effect [OF l assms(1,3)] seg_free_ok [OF assms(5)] obtain e where
    b1: "b1 = ?b\<lparr>end_addr := e\<rparr>" and "\<forall>ph \<in> set (file_phdrs b). seg_placed (mem P) (mem P1) ?b ph" by auto
  with assms(6) [of "mem P1"] obtain ds where "dyn_entries (mem P1) b1 = Inr ds" "dyn_ok (mem P1) b1 ds"
    by auto
  from ParseDynamic_returns [OF this] l assms(4) show ?thesis by (auto simp: Load_def Let_def)
qed

section \<open>Properties\<close>

text \<open>
  C18: the constructor reads the headers. For a file that holds its ELF header and its table of
  program headers, with a descriptor left and a place the kernel finds for it, the constructor
  returns with the file's header and all its program headers in order, and the last
  \<open>PT_DYNAMIC\<close> and the last \<open>PT_TLS\<close> header as the dynamic and the thread-local segment.
\<close>

theorem ELFBinary_ctor_headers:
  assumes "os_file os path = Some content" and "0 < fds P" and "headers_inside content"
    and "mmap_fresh os" and "os_pick os (vmas P) 0 (page_ceil (of_nat (length content))) = Some p"
  shows "\<exists>b P'. ELFBinary_ctor os path P = Inr (b, P') \<and> ehdr b = header_of content \<and>
    file_phdrs b = phdrs_of content \<and>
    Some (file_dynamic b) = last_phdr PT_DYNAMIC (Some zero_Phdr) (phdrs_of content) \<and>
    file_tls b = last_phdr PT_TLS None (phdrs_of content) \<and>
    (has_tls b \<longleftrightarrow> (\<exists>ph \<in> set (phdrs_of content). p_type ph = PT_TLS))"
  using ELFBinary_ctor_opens [OF assms] opened_binary_sel
  by (intro exI [of _ "opened_binary path p content"] exI [of _ "opened_proc p content P"]) simp

text \<open>
  C16: a well-formed file loads. If the headers lie inside the file, the kernel has room for it
  and honours free hints, the segments are ascending, free at their addresses and inside the
  file, and any memory that holds the segments holds a dynamic section as \<open>ParseDynamic\<close>
  expects it, then the constructor and \<open>Load\<close> return, memory in use is unchanged, and the
  image of the file is in memory.
\<close>

theorem elf_file_loads:
  assumes "mmap_fresh os" and "mmap_honours os" and "proc_wf P"
    and "os_file os path = Some content" and "0 < fds P" and "headers_inside content"
    and "os_pick os (vmas P) 0 (page_ceil (of_nat (length content))) = Some p"
    and "b = (opened_binary path p content)\<lparr>base_addr :=
      if e_type (header_of content) = ET_DYN then next_base_addr L else 0\<rparr>"
    and "segs_free (opened_proc p content P) b (phdrs_of content)"
    and "\<forall>m. (\<forall>ph \<in> set (phdrs_of content). seg_placed (mem (opened_proc p content P)) m b ph) \<longrightarrow>
      (\<exists>ds. dyn_entries m b = Inr ds \<and> dyn_ok m b ds)"
  shows "\<exists>b' L' P'. load_binary os path (L, P) = Inr (b', L', P') \<and> base_addr b' = base_addr b \<and>
    mem P \<subseteq>\<^sub>m mem P' \<and> has_image os (mem P') b'"
proof -
  let ?b = "opened_binary path p content" and ?P = "opened_proc p content P"
  note c = ELFBinary_ctor_opens [OF assms(4-6,1,7)]
  have len: "length content + 4095 < 2 ^ 64" using assms(6) by (simp add: headers_inside_def)
  have wf: "proc_wf ?P" by (rule ctor_maps_file(1) [OF assms(1,3) c assms(4) len])
  from Load_returns [OF assms(1,2) wf, of b ?b "next_base_addr L"] assms(8-10) opened_binary_sel
  obtain nxt b' P' where l: "Load os (next_base_addr L) ?b ?P = Inr (nxt, b', P')" by auto
  let ?L = "L\<lparr>binaries := binaries L @ [b'], next_base_addr := nxt\<rparr>"
  have r: "load_binary os path (L, P) = Inr (b', ?L, P')" using c l by (simp add: load_binary_def)
  note same = Load_same [OF l]
  have base: "base_addr b' = base_addr b" using same(4) by (simp add: assms(8) opened_binary_sel)
  have "loadable os b'"
    using seg_free_ok [OF assms(9)] same(3) base load_binary_appends(3) [OF r] assms(4) len
    by (simp add: loadable_def opened_binary_sel)
  from load_binary_effect [OF assms(1,3) r this] r base show ?thesis by blast
qed

section \<open>The properties on a sample\<close>

lemma dyn_file_header: "header_of dyn_file = \<lparr>e_type = ET_DYN, e_entry = 0x10, e_phoff = 64,
    e_phentsize = 56, e_phnum = 2\<rparr>"
  by (simp add: header_of_def dyn_file_eq eval_simps)

lemma dyn_file_length: "length dyn_file = 192"
  by (simp add: dyn_file_eq)

lemma dyn_file_phdrs: "phdrs_of dyn_file = [dyn_seg, dyn_seg\<lparr>p_type := PT_DYNAMIC\<rparr>]"
proof -
  have o: "phdr_offset dyn_file 0 = 64" "phdr_offset dyn_file 1 = 120"
    by (simp_all add: phdr_offset_def dyn_file_header)
  have "phdr_of dyn_file 0 = dyn_seg" "phdr_of dyn_file 1 = dyn_seg\<lparr>p_type := PT_DYNAMIC\<rparr>"
    unfolding phdr_of_def o by (simp_all add: dyn_file_eq dyn_seg_def eval_simps)
  moreover have "[0..<unat (e_phnum (header_of dyn_file))] = [0, 1]"
    by (simp add: dyn_file_header upt_rec)
  ultimately show ?thesis by (simp add: phdrs_of_def)
qed

lemma dyn_file_inside: "headers_inside dyn_file"
proof -
  have "i = 0 \<or> i = 1" if "i < 2" for i :: nat using that by auto
  then show ?thesis
    by (auto simp: headers_inside_def phdr_offset_def dyn_file_header dyn_file_length)
qed

lemma dyn_pick: "os_pick (host_with files) [] 0 (page_ceil (of_nat (length dyn_file))) = Some 0x7f0000000000"
  by (simp add: dyn_file_eq eval_simps)

theorem ELFBinary_ctor_headers_witness:
  "headers_inside dyn_file \<and>
   (\<exists>b P'. ELFBinary_ctor (host_with [(''/a'', dyn_file)]) ''/a'' (empty_proc 5) = Inr (b, P') \<and>
      file_phdrs b = [dyn_seg, dyn_seg\<lparr>p_type := PT_DYNAMIC\<rparr>] \<and> file_tls b = None)"
proof -
  let ?os = "host_with [(''/a'', dyn_file)]"
  have f: "os_file ?os ''/a'' = Some dyn_file" "0 < fds (empty_proc 5)" by simp_all
  have "os_pick ?os (vmas (empty_proc 5)) 0 (page_ceil (of_nat (length dyn_file))) = Some 0x7f0000000000"
    using dyn_pick by simp
  from ELFBinary_ctor_headers [OF f dyn_file_inside host_with_fresh this] obtain b P' where
    "ELFBinary_ctor ?os ''/a'' (empty_proc 5) = Inr (b, P')" "file_phdrs b = phdrs_of dyn_file"
    "file_tls b = last_phdr PT_TLS None (phdrs_of dyn_file)" by blast
  then show ?thesis using dyn_file_inside by (simp add: dyn_file_phdrs last_phdr_def dyn_seg_def)
qed

abbreviation sample_opened :: ELFBinary where
  "sample_opened \<equiv> (opened_binary ''/a'' 0x7f0000000000 dyn_file)\<lparr>base_addr := 0x1400000\<rparr>"

lemma sample_opened_sel:
  "file_dynamic sample_opened = dyn_seg\<lparr>p_type := PT_DYNAMIC\<rparr>" "strtab sample_opened = 0"
  "rela sample_opened = 0" "jmprel sample_opened = 0" "symtab sample_opened = 0"
  by (simp_all add: opened_binary_def dyn_file_phdrs add_phdr_def new_ELFBinary_def dyn_seg_def)

lemma sample_proc:
  "opened_proc 0x7f0000000000 dyn_file (empty_proc 5) =
    \<lparr>mem = map_at (\<lambda>_. None) 0x7f0000000000 0x1000 (file_byte dyn_file),
     vmas = [(0x7f0000000000, 0x1000, 7)], fds = 4, map_file = []\<rparr>"
  by (simp add: opened_proc_def dyn_file_eq empty_proc_def page_ceil_def)

lemma sample_segs_free:
  "segs_free (opened_proc 0x7f0000000000 dyn_file (empty_proc 5)) sample_opened (phdrs_of dyn_file)"
proof -
  have "mapped (map_at (\<lambda>_. None) 0x7f0000000000 0x1000 (file_byte dyn_file)) (0x7f0000000000 + of_nat 176) 16"
    by (rule mapped_file) simp_all
  then show ?thesis
    by (simp add: segs_free_def dyn_file_phdrs seg_free_def sample_proc opened_binary_sel)
       (simp add: dyn_seg_def seg_start_def seg_end_def page_floor_def page_ceil_def disjoint_area_def)
qed

lemma sample_dynamic:
  assumes "\<forall>ph \<in> set (phdrs_of dyn_file).
      seg_placed (mem (opened_proc 0x7f0000000000 dyn_file (empty_proc 5))) m sample_opened ph"
  shows "dyn_entries m sample_opened = Inr [(DT_STRTAB, 0x10)] \<and> dyn_ok m sample_opened [(DT_STRTAB, 0x10)]"
proof -
  let ?m = "map_at (\<lambda>_. None) 0x7f0000000000 0x1000 (file_byte dyn_file)"
  have src: "?m (seg_src sample_opened dyn_seg i) = Some (dyn_file ! (176 + i))" if "i < 16" for i
  proof -
    have "unat (of_nat (176 + i) :: u64) = 176 + i" using that by (intro unat_of_nat_u64) simp
    moreover have "seg_src sample_opened dyn_seg i - 0x7f0000000000 = of_nat (176 + i)"
      by (simp add: seg_src_def opened_binary_sel dyn_seg_def)
    ultimately have "unat (seg_src sample_opened dyn_seg i - 0x7f0000000000) = 176 + i" by (simp only:)
    with that show ?thesis by (simp add: map_at_def file_byte_def dyn_file_length)
  qed
  from assms have pl: "seg_placed ?m m sample_opened dyn_seg" by (simp add: dyn_file_phdrs sample_proc)
  have "m (0x1400010 + of_nat i) = Some (dyn_file ! (176 + i))" if "i < 16" for i
    using seg_placed_at [OF pl _ _ src [OF that]] that by (simp add: dyn_seg_def seg_dst_def)
  then have r: "read_bytes m 0x1400010 16 = Inr (drop 176 dyn_file)"
    by (simp add: read_bytes_iff dyn_file_length)
  have b: "drop 176 dyn_file = [5, 0, 0, 0, 0, 0, 0, 0, 16, 0, 0, 0, 0, 0, 0, 0]"
    by (simp add: dyn_file_eq)
  have "read_u64 m 0x1400010 = Inr 5" "read_u64 m 0x1400018 = Inr 0x10"
    using r unfolding b by (auto simp: eval_simps res_simps split: option.splits)
  then have "dyn_entries m sample_opened = Inr [(DT_STRTAB, 0x10)]"
    by (simp add: dyn_entries_def sample_opened_sel dyn_entry_def dyn_addr_def dyn_seg_def)
  moreover have "dyn_ok m sample_opened [(DT_STRTAB, 0x10)]"
    by (simp add: dyn_ok_def sample_opened_sel last_ptr_def entry_ok_def dyn_seg_def Let_def)
  ultimately show ?thesis by blast
qed

theorem elf_file_loads_witness:
  "\<exists>b' L' P'. load_binary (host_with [(''/a'', dyn_file)]) ''/a''
       (fst (DynLoader_ctor ''/a'' [] [] (empty_proc 6)), empty_proc 5) = Inr (b', L', P') \<and>
     base_addr b' = 0x1400000 \<and> has_image (host_with [(''/a'', dyn_file)]) (mem P') b'"
proof -
  let ?os = "host_with [(''/a'', dyn_file)]" and ?L = "fst (DynLoader_ctor ''/a'' [] [] (empty_proc 6))"
  have f: "os_file ?os ''/a'' = Some dyn_file" "0 < fds (empty_proc 5)" by simp_all
  have p: "os_pick ?os (vmas (empty_proc 5)) 0 (page_ceil (of_nat (length dyn_file))) = Some 0x7f0000000000"
    using dyn_pick by simp
  have b: "sample_opened = (opened_binary ''/a'' 0x7f0000000000 dyn_file)\<lparr>base_addr :=
      if e_type (header_of dyn_file) = ET_DYN then next_base_addr ?L else 0\<rparr>"
    by (simp add: dyn_file_header DynLoader_ctor_def)
  have d: "\<forall>m. (\<forall>ph \<in> set (phdrs_of dyn_file).
      seg_placed (mem (opened_proc 0x7f0000000000 dyn_file (empty_proc 5))) m sample_opened ph) \<longrightarrow>
      (\<exists>ds. dyn_entries m sample_opened = Inr ds \<and> dyn_ok m sample_opened ds)"
    using sample_dynamic by blast
  from elf_file_loads [OF host_with_fresh host_with_honours empty_proc_wf f dyn_file_inside p b
      sample_segs_free d]
  show ?thesis by auto
qed

end
