(* ===== verification/Exec_Returns.thy ===== *)
theory Exec_Returns
  imports Exec_Loader Load_Returns
begin

text \<open>
  When a static executable runs: conditions on the file, the kernel and the process under which
  \<open>MakeExecLoader\<close>, \<open>Load\<close> and \<open>Execute\<close> of \<open>ExecLoader\<close> follow each other to
  the jump into the program.
\<close>

section \<open>Opening the file\<close>

lemma list_all2_partner:
  "list_all2 R xs ys \<Longrightarrow> x \<in> set xs \<Longrightarrow> \<exists>y \<in> set ys. R x y"
  "list_all2 R xs ys \<Longrightarrow> y \<in> set ys \<Longrightarrow> \<exists>x \<in> set xs. R x y"
  by (induction rule: list_all2_induct) auto

definition header_addrs :: "addr \<Rightarrow> byte list \<Rightarrow> addr list" where
  "header_addrs p content =
     map (\<lambda>i. p + of_nat (phdr_offset content i)) [0..<unat (e_phnum (header_of content))]"

text \<open>The headers as the mapped file has them.\<close>

lemma opened_headers:
  assumes "headers_inside content" and "unat p + unat (page_ceil (of_nat (length content))) < 2 ^ 64"
  shows "read_Ehdr (mem (opened_proc p content P)) p = Inr (header_of content)"
    and "list_all2 (\<lambda>h ph. read_Phdr (mem (opened_proc p content P)) h = Inr ph)
      (header_addrs p content) (phdrs_of content)"
proof -
  let ?n = "page_ceil (of_nat (length content)) :: u64"
  from assms(1) have len: "sizeof_Ehdr \<le> length content" "length content + 4095 < 2 ^ 64"
    by (simp_all add: headers_inside_def)
  then have n: "length content \<le> unat ?n" by (simp add: unat_page_ceil unat_of_nat_u64)
  note rd = read_in_file [OF assms(2) n]
  show "read_Ehdr (mem (opened_proc p content P)) p = Inr (header_of content)"
    using rd [of 0 sizeof_Ehdr] len(1) by (simp add: read_defs header_of_def opened_proc_def Let_def)
  have "read_Phdr (mem (opened_proc p content P)) (p + of_nat (phdr_offset content i)) = Inr (phdr_of content i)"
    if "i < unat (e_phnum (header_of content))" for i
    using rd [of "phdr_offset content i" sizeof_Phdr] assms(1) that
    by (simp add: read_defs phdr_of_def headers_inside_def opened_proc_def Let_def)
  then show "list_all2 (\<lambda>h ph. read_Phdr (mem (opened_proc p content P)) h = Inr ph)
      (header_addrs p content) (phdrs_of content)"
    by (simp add: header_addrs_def phdrs_of_def list_all2_conv_all_nth)
qed

abbreviation dynamic_phdrs :: "Elf64_Phdr list \<Rightarrow> Elf64_Phdr list" where
  "dynamic_phdrs phs \<equiv> filter (\<lambda>ph. p_type ph = PT_DYNAMIC) phs"

lemma find_dynamic_loop:
  "list_all2 (\<lambda>h ph. read_Phdr m h = Inr ph) hs phs \<Longrightarrow> length (dynamic_phdrs phs) \<le> 1 \<Longrightarrow>
    d = 0 \<or> dynamic_phdrs phs = [] \<Longrightarrow> \<exists>d'. foldR (find_dynamic m) d hs = Inr d'"
proof (induction hs phs arbitrary: d rule: list_all2_induct)
  case Nil
  then show ?case by simp
next
  case (Cons h hs ph phs)
  then show ?case
    by (cases "p_type ph = PT_DYNAMIC") (auto simp: find_dynamic_def CHECK_def)
qed

lemma MakeExecLoader_opens:
  assumes "os_file os path = Some content" and "0 < fds P" and "headers_inside content"
    and "mmap_fresh os" and "os_pick os (vmas P) 0 (page_ceil (of_nat (length content))) = Some p"
    and "length (dynamic_phdrs (phdrs_of content)) \<le> 1"
  obtains x where "MakeExecLoader os path argv0 P = Inr (x, opened_proc p content P)"
    "ex_head x = p" "ex_phdrs x = header_addrs p content" "ex_memories x = []"
proof -
  let ?n = "page_ceil (of_nat (length content))" and ?len = "of_nat (length content) :: u64"
  let ?P = "opened_proc p content P"
  note n = file_fits(1,2) [OF assms(3-5)] and fit = file_fits(3) [OF assms(3-5)] and ok = file_fits(4) [OF assms(3-5)]
  note hd = opened_headers [OF assms(3) fit, of P]
  have ha: "map (\<lambda>i. p + e_phoff (header_of content) +
      scast (of_nat i * ucast (e_phentsize (header_of content)) :: u32))
      [0..<unat (e_phnum (header_of content))] = header_addrs p content"
    using phdr_addr_offset [of "new_ELFBinary path p (header_of content)" p content] assms(3)
    by (auto simp: header_addrs_def phdr_addr_def new_ELFBinary_def headers_inside_def)
  from find_dynamic_loop [OF hd(2) assms(6), of 0] obtain d where
    d: "foldR (find_dynamic (mem ?P)) 0 (header_addrs p content) = Inr d" by auto
  have "MakeExecLoader os path argv0 P = rbind (ExecLoader_ctor (mem ?P) argv0 p ?n) (\<lambda>x. Inr (x, ?P))"
    using assms(1,2,5) n ok
    by (simp add: MakeExecLoader_def open_file_def mmap_file_def mmap_with_def CHECK_def Let_def opened_proc_def)
  then show thesis using that hd(1) ha d by (simp add: ExecLoader_ctor_def Let_def)
qed

section \<open>The segments\<close>

text \<open>The last check of \<open>Load\<close> is strict.\<close>

definition ends_inside_page :: "Elf64_Phdr \<Rightarrow> bool" where
  "ends_inside_page ph \<longleftrightarrow> p_vaddr ph + p_memsz ph < page_ceil (p_vaddr ph + p_memsz ph)"

lemma exec_segment_returns:
  assumes "mmap_honours os" and "read_Phdr (mem P) h = Inr ph" and "p_type ph = PT_LOAD"
    and "seg_free P (static_bin x) ph" and "ends_inside_page ph"
  defines "s \<equiv> seg_start (static_bin x) ph" and "e \<equiv> seg_end (static_bin x) ph"
  shows "\<exists>x' P'. exec_load_segment os (x, P) h = Inr (x', P') \<and> ex_head x' = ex_head x \<and>
    vmas P' = vmas P @ [(s, e - s, 7)]"
proof -
  have pages: "page_floor (p_vaddr ph) = s" "page_ceil (p_vaddr ph + p_memsz ph) = e"
    by (simp_all add: s_def e_def seg_start_def seg_end_def)
  define P1 where "P1 = P\<lparr>mem := map_at (mem P) s (e - s) (\<lambda>_. 0), vmas := vmas P @ [(s, e - s, 7)]\<rparr>"
  have mm: "mmap_anon os s (e - s) 7 P = (s, P1)"
    unfolding P1_def s_def e_def using assms(1,4) by (rule seg_maps)
  have le: "unat (p_filesz ph) \<le> unat (p_memsz ph)"
    and src: "mapped (mem P) (ex_head x + p_offset ph) (unat (p_filesz ph))"
    using assms(4) by (simp_all add: seg_free_def word_le_nat_alt)
  have "mapped (mem P1) (p_vaddr ph) (unat (p_filesz ph))"
    using seg_inside [OF assms(4)] le by (simp add: mapped_def P1_def map_at_def s_def e_def)
  moreover have "mapped (mem P1) (ex_head x + p_offset ph) (unat (p_filesz ph))"
    using src by (simp add: mapped_def P1_def map_at_def)
  ultimately obtain m where cp: "memcpy (mem P1) (p_vaddr ph) (ex_head x + p_offset ph) (p_filesz ph) = Inr m"
    using memcpy_ok by blast
  have "s \<le> p_vaddr ph" unfolding pages [symmetric] by (simp add: word_le_nat_alt unat_page_floor)
  with assms(2,3,5) mm cp show ?thesis
    by (simp add: exec_load_segment_def pages Let_def CHECK_def ends_inside_page_def) (simp add: P1_def)
qed

lemma exec_segments_return:
  assumes "mmap_fresh os" and "mmap_honours os"
  shows "list_all2 (\<lambda>h ph. read_Phdr (mem P) h = Inr ph) hs phs \<Longrightarrow> proc_wf P \<Longrightarrow>
    segs_free P (static_bin x) phs \<Longrightarrow> \<forall>ph \<in> set (load_phdrs phs). ends_inside_page ph \<Longrightarrow>
    \<exists>x' P'. foldR (exec_load_segment os) (x, P) hs = Inr (x', P') \<and> ex_head x' = ex_head x"
proof (induction hs arbitrary: x P phs)
  case Nil
  then show ?case by simp
next
  case (Cons h hs)
  then obtain ph qs where phs: "phs = ph # qs" and h: "read_Phdr (mem P) h = Inr ph"
    and later: "list_all2 (\<lambda>h ph. read_Phdr (mem P) h = Inr ph) hs qs"
    by (auto simp: list_all2_Cons1)
  show ?case
  proof (cases "p_type ph = PT_LOAD")
    case False
    with Cons.prems h phs later Cons.IH [of P qs x] show ?thesis
      by (simp add: exec_load_segment_def segs_free_def)
  next
    case True
    let ?b = "static_bin x" let ?e = "seg_end ?b ph" and ?s = "seg_start ?b ph"
    from Cons.prems(3) True have fr: "seg_free P ?b ph" "\<forall>q \<in> set (load_phdrs qs). seg_free P ?b q"
      and after: "\<forall>q \<in> set (load_phdrs qs). ?e \<le> seg_start ?b q"
      and srt: "sorted_wrt (\<lambda>p q. seg_end ?b p \<le> seg_start ?b q) (load_phdrs qs)"
      by (auto simp: phs segs_free_def)
    from exec_segment_returns [OF assms(2) h True fr(1)] Cons.prems(4) True obtain x1 P1 where
      one: "exec_load_segment os (x, P) h = Inr (x1, P1)" and x1: "ex_head x1 = ex_head x"
      and v: "vmas P1 = vmas P @ [(?s, ?e - ?s, 7)]" by (auto simp: phs)
    have "seg_ok 0 ph" using seg_free_ok [OF Cons.prems(3)] by (simp add: phs)
    with exec_loop_effect [OF assms(1), of x P "[h]" x1 P1] one h Cons.prems(2)
    have wf: "proc_wf P1" and le: "mem P \<subseteq>\<^sub>m mem P1" by auto
    have b1: "static_bin x1 = ?b" using x1 by (simp add: static_bin_def)
    have se: "unat ?s + unat (?e - ?s) = unat ?e"
      using fr(1) seg_pages(3,4) [of ph ?b] by (simp add: seg_free_def)
    have "seg_free P1 ?b q" if q: "q \<in> set (load_phdrs qs)" for q
    proof -
      have "unat ?e \<le> unat (seg_start ?b q)" using after q by (simp add: word_le_nat_alt)
      from disjoint_after [OF this se] fr(2) q v le show ?thesis
        by (auto simp: seg_free_def mapped_def map_le_def dom_def)
    qed
    with srt have "segs_free P1 (static_bin x1) qs" by (simp add: b1 segs_free_def)
    moreover have "list_all2 (\<lambda>h ph. read_Phdr (mem P1) h = Inr ph) hs qs"
      using later by (rule list_all2_mono) (rule read_Phdr_later [OF _ le])
    ultimately show ?thesis using Cons.IH [of P1 qs x1] wf Cons.prems(4) one x1 by (auto simp: phs)
  qed
qed

section \<open>Loading the file\<close>

text \<open>
  A static executable that can be loaded once its file is mapped at \<open>p\<close>: headers and segments
  lie inside the file, at most one header is \<open>PT_DYNAMIC\<close>, and the segments are ascending, free
  at their addresses and do not end on a page boundary.
\<close>

definition static_ok :: "byte list \<Rightarrow> addr \<Rightarrow> proc \<Rightarrow> bool" where
  "static_ok content p P \<longleftrightarrow> headers_inside content \<and> length (dynamic_phdrs (phdrs_of content)) \<le> 1 \<and>
     segs_free (opened_proc p content P) (new_ELFBinary [] p (header_of content)) (phdrs_of content) \<and>
     (\<forall>ph \<in> set (load_phdrs (phdrs_of content)). ends_inside_page ph \<and>
        unat (p_offset ph) + unat (p_filesz ph) \<le> length content)"

lemma static_loads:
  assumes "mmap_fresh os" and "mmap_honours os" and "proc_wf P"
    and "os_file os path = Some content" and "0 < fds P"
    and "os_pick os (vmas P) 0 (page_ceil (of_nat (length content))) = Some p" and "static_ok content p P"
  obtains x x2 P2 where "MakeExecLoader os path argv0 P = Inr (x, opened_proc p content P)"
    "exec_Load os (x, opened_proc p content P) = Inr (x2, P2)" "ex_head x2 = p"
    "mem (opened_proc p content P) \<subseteq>\<^sub>m mem P2"
    "\<forall>ph \<in> set (phdrs_of content). seg_placed (mem (opened_proc p content P)) (mem P2) (static_bin x) ph"
    "ex_head x = p"
proof -
  let ?P = "opened_proc p content P"
  from assms(7) have inside: "headers_inside content"
    and dyn: "length (dynamic_phdrs (phdrs_of content)) \<le> 1" by (simp_all add: static_ok_def)
  have len: "length content + 4095 < 2 ^ 64" using inside by (simp add: headers_inside_def)
  note wf = ctor_maps_file(1) [OF assms(1,3) ELFBinary_ctor_opens [OF assms(4,5) inside assms(1,6)] assms(4) len]
  obtain x where mk: "MakeExecLoader os path argv0 P = Inr (x, ?P)"
    and x: "ex_head x = p" "ex_phdrs x = header_addrs p content"
    using MakeExecLoader_opens [OF assms(4,5) inside assms(1,6) dyn] by metis
  note hd = opened_headers [OF inside file_fits(3) [OF inside assms(1,6)], of P]
  have free: "segs_free ?P (static_bin x) (phdrs_of content)"
    using assms(7) by (simp add: static_ok_def segs_free_def seg_free_def seg_start_def seg_end_def
        new_ELFBinary_def x(1))
  with exec_segments_return [OF assms(1,2) hd(2) wf, of x] assms(7) obtain x2 P2 where
    l: "foldR (exec_load_segment os) (x, ?P) (header_addrs p content) = Inr (x2, P2)"
    and x2: "ex_head x2 = p" by (auto simp: static_ok_def x(1))
  have "\<forall>h \<in> set (header_addrs p content). \<exists>ph. read_Phdr (mem ?P) h = Inr ph \<and> seg_ok 0 ph"
    using list_all2_partner(1) [OF hd(2)] seg_free_ok [OF free] by fastforce
  note eff = exec_loop_effect [OF assms(1) l wf this]
  then have "\<forall>ph \<in> set (phdrs_of content). seg_placed (mem ?P) (mem P2) (static_bin x) ph"
    using list_all2_partner(2) [OF hd(2)] by blast
  with mk l x x2 eff show thesis using that by (simp add: exec_Load_def)
qed

section \<open>Property\<close>

text \<open>
  C38: a static executable starts. If the file is \<open>static_ok\<close> and there are a descriptor,
  room for the file and stack, then \<open>MakeExecLoader\<close>, \<open>Load\<close>, \<open>Relocate\<close> and
  \<open>Execute\<close> return one after the other. The segments are in memory byte for byte, the jump
  goes to the file's entry, and reading the stack as the ABI prescribes gives the file name, the
  auxiliary vector, and the environment in reverse.
\<close>

theorem static_program_starts:
  assumes "mmap_fresh os" and "mmap_honours os" and "proc_wf P"
    and "os_file os path = Some content" and "0 < fds P"
    and "os_pick os (vmas P) 0 (page_ceil (of_nat (length content))) = Some p"
    and "static_ok content p P" and "os_getauxval os AT_RANDOM \<noteq> 0" and "strings_placed c_strs"
    and "n = 10 + 2 * length (aux_tvs os) + length env"
    and "\<forall>i < 8 * n. mem P (rsp - 1 - of_nat i) \<noteq> None" and "8 * n \<le> 2 ^ 64"
  shows "\<exists>x P1 x2 P2 m' rsp' ws. MakeExecLoader os path argv0 P = Inr (x, P1) \<and>
    exec_Load os (x, P1) = Inr (x2, P2) \<and>
    (\<forall>ph \<in> set (load_phdrs (phdrs_of content)). \<forall>i < unat (p_memsz ph).
      mem P2 (p_vaddr ph + of_nat i) =
        Some (if i < unat (p_filesz ph) then content ! (unat (p_offset ph) + i) else 0)) \<and>
    exec_Execute os c_strs fname env rsp (exec_Relocate (x2, P2)) =
      Inr (m', rsp', e_entry (header_of content)) \<and>
    read_words m' rsp' n = Inr ws \<and> parse_words ws = ([fname], rev (c_strs env), rev (aux_tvs os))"
proof -
  let ?P = "opened_proc p content P"
  from assms(7) have inside: "headers_inside content" by (simp add: static_ok_def)
  have len: "length content + 4095 < 2 ^ 64" using inside by (simp add: headers_inside_def)
  note ctor = ELFBinary_ctor_opens [OF assms(4,5) inside assms(1,6)]
  note bytes = ctor_maps_file(2) [OF assms(1,3) ctor assms(4) len, unfolded opened_binary_sel]
  obtain x x2 P2 where l: "MakeExecLoader os path argv0 P = Inr (x, ?P)"
    "exec_Load os (x, ?P) = Inr (x2, P2)" "ex_head x2 = p" "mem ?P \<subseteq>\<^sub>m mem P2"
    and pl: "\<forall>ph \<in> set (phdrs_of content). seg_placed (mem ?P) (mem P2) (static_bin x) ph" "ex_head x = p"
    using static_loads [OF assms(1-7)] by metis
  have img: "mem P2 (p_vaddr ph + of_nat i) =
      Some (if i < unat (p_filesz ph) then content ! (unat (p_offset ph) + i) else 0)"
    if ph: "ph \<in> set (load_phdrs (phdrs_of content))" and i: "i < unat (p_memsz ph)" for ph i
  proof -
    have "mem ?P (p + p_offset ph + of_nat i) = Some (content ! (unat (p_offset ph) + i))"
      if "i < unat (p_filesz ph)"
      using bytes [of "unat (p_offset ph) + i"] that assms(7) ph by (force simp: static_ok_def add.assoc)
    with seg_placed_at [of "mem ?P" "mem P2" "static_bin x" ph i] pl ph i show ?thesis
      by (simp add: seg_src_def seg_dst_def)
  qed
  have "read_Ehdr (mem ?P) p = Inr (header_of content)"
    using opened_headers(1) [OF inside file_fits(3) [OF inside assms(1,6)]] .
  from read_Ehdr_later [OF this l(4)] have eh: "read_Ehdr (mem P2) (ex_head x2) = Inr (header_of content)"
    by (simp only: l(3))
  have "mem P \<subseteq>\<^sub>m mem P2" using ctor_keeps [OF assms(1,3) ctor] l(4) by (rule map_le_trans)
  then have "\<forall>i < 8 * n. mem P2 (rsp - 1 - of_nat i) \<noteq> None"
    using assms(11) map_le_at [of "mem P" "mem P2"] by simp
  from exec_Execute_starts [OF assms(8) eh assms(9,10) this assms(12), of fname] l(1,2) img
  show ?thesis by (auto simp: exec_Relocate_def)
qed

section \<open>The property on a sample\<close>

text \<open>The sample executable in a process with one page of stack.\<close>

definition stack_proc :: proc where
  "stack_proc = \<lparr>mem = map_at (\<lambda>_. None) 0x50000 0x1000 (\<lambda>_. 0), vmas = [(0x50000, 0x1000, 3)], fds = 5,
     map_file = []\<rparr>"

lemma stack_proc_wf: "proc_wf stack_proc"
  by (auto simp: stack_proc_def proc_wf_def map_at_def in_area_def)

lemma exec_file_header: "header_of exec_file = \<lparr>e_type = ET_EXEC, e_entry = 0x10010, e_phoff = 64,
    e_phentsize = 56, e_phnum = 1\<rparr>"
  by (simp add: header_of_def exec_file_eq eval_simps)

lemma exec_file_length: "length exec_file = 124"
  by (simp add: exec_file_eq)

lemma exec_file_phdrs: "phdrs_of exec_file = [exec_seg]"
proof -
  have "phdr_offset exec_file 0 = 64" by (simp add: phdr_offset_def exec_file_header)
  then have "phdr_of exec_file 0 = exec_seg"
    unfolding phdr_of_def by (simp add: exec_file_eq exec_seg_def eval_simps)
  then show ?thesis by (simp add: phdrs_of_def exec_file_header)
qed

lemma exec_file_ok: "static_ok exec_file 0x7f0000000000 stack_proc"
proof -
  have "headers_inside exec_file"
    by (simp add: headers_inside_def phdr_offset_def exec_file_header exec_file_length)
  moreover have "mapped (map_at (mem stack_proc) 0x7f0000000000 0x1000 (file_byte exec_file))
      (0x7f0000000000 + of_nat 120) 4" by (rule mapped_file) simp_all
  then have "seg_free (opened_proc 0x7f0000000000 exec_file stack_proc)
      (new_ELFBinary [] 0x7f0000000000 (header_of exec_file)) exec_seg"
    by (simp add: seg_free_def opened_proc_def exec_file_length new_ELFBinary_def exec_seg_def seg_start_def
        seg_end_def page_floor_def page_ceil_def disjoint_area_def stack_proc_def)
  moreover have "ends_inside_page exec_seg"
    by (simp add: ends_inside_page_def exec_seg_def page_ceil_def)
  ultimately show ?thesis
    by (simp add: static_ok_def exec_file_phdrs segs_free_def exec_file_length)
       (simp add: exec_seg_def)
qed

theorem static_program_starts_witness:
  "\<exists>x P1 x2 P2 m' rsp' n ws. MakeExecLoader static_host ''/a'' ''a'' stack_proc = Inr (x, P1) \<and>
     exec_Load static_host (x, P1) = Inr (x2, P2) \<and> mem P2 0x10011 = Some 0xad \<and>
     exec_Execute static_host (map (\<lambda>s. if s = ''A'' then 0x5000 else 0x5010)) 0x6000 [''A'', ''B''] 0x51000
       (exec_Relocate (x2, P2)) = Inr (m', rsp', 0x10010) \<and>
     read_words m' rsp' n = Inr ws \<and> parse_words ws = ([0x6000], [0x5010, 0x5000], rev (aux_tvs static_host))"
proof -
  let ?c = "map (\<lambda>s. if s = ''A'' then 0x5000 else 0x5010) :: string list \<Rightarrow> u64 list"
  define n where n: "n = 10 + 2 * length (aux_tvs static_host) + length [''A'', ''B'']"
  have f: "os_file static_host ''/a'' = Some exec_file" "0 < fds stack_proc"
    "os_pick static_host (vmas stack_proc) 0 (page_ceil (of_nat (length exec_file))) = Some 0x7f0000000000"
    by (simp_all add: stack_proc_def exec_file_length) (simp add: eval_simps)
  have r: "os_getauxval static_host AT_RANDOM \<noteq> 0" "strings_placed ?c"
    by (auto simp: strings_placed_def)
  have len: "8 * n \<le> 672" using aux_tvs_length [of static_host] by (simp add: n)
  then have "\<forall>i < 8 * n. mem stack_proc (0x51000 - 1 - of_nat i) \<noteq> None"
    using page_of_stack [of _ _ "0x50000"] by (simp add: stack_proc_def)
  from static_program_starts [OF host_with_fresh host_with_honours stack_proc_wf f exec_file_ok r n this,
      of "''a''" "0x6000"] len
  obtain x P1 x2 P2 m' rsp' ws where 1: "MakeExecLoader static_host ''/a'' ''a'' stack_proc = Inr (x, P1)"
    "exec_Load static_host (x, P1) = Inr (x2, P2)"
    and img: "\<forall>ph \<in> set (load_phdrs (phdrs_of exec_file)). \<forall>i < unat (p_memsz ph).
      mem P2 (p_vaddr ph + of_nat i) =
        Some (if i < unat (p_filesz ph) then exec_file ! (unat (p_offset ph) + i) else 0)"
    and 2: "exec_Execute static_host ?c 0x6000 [''A'', ''B''] 0x51000 (exec_Relocate (x2, P2)) =
      Inr (m', rsp', 0x10010)" "read_words m' rsp' n = Inr ws"
    "parse_words ws = ([0x6000], [0x5010, 0x5000], rev (aux_tvs static_host))"
    by (auto simp: exec_file_header)
  have "exec_seg \<in> set (load_phdrs (phdrs_of exec_file))" "1 < unat (p_memsz exec_seg)"
    by (simp_all add: exec_file_phdrs exec_seg_def)
  from img [rule_format, OF this] have "mem P2 (p_vaddr exec_seg + of_nat 1) = Some (exec_file ! 121)"
    by (simp add: exec_seg_def)
  then have "mem P2 0x10011 = Some 0xad" by (simp add: exec_seg_def exec_file_eq)
  with 1 2 show ?thesis by blast
qed

end
