(* ===== verification/Raw_Write.thy ===== *)
theory Raw_Write
  imports Memory Cxx_Lib
begin

text \<open>
  The printing macros of \<open>raw_write/raw_write.h\<close>, which write with system calls and without
  libc. Output to descriptor 1 is a string that grows. Numbers are \<open>long long\<close>; negating
  the least of them and writing before the start of the 21 byte buffer have no defined result
  and are \<open>Indeterminate\<close>.
\<close>

section \<open>The model\<close>

definition RAW_WRITE :: "string \<Rightarrow> nat \<Rightarrow> string \<Rightarrow> string" where
  "RAW_WRITE buf count out = out @ take count buf"

definition RAW_EXIT :: "int \<Rightarrow> 'a res" where
  "RAW_EXIT status = Inl (ExitWith (status mod 256))"

definition RAW_PRINT_STR :: "memory \<Rightarrow> addr \<Rightarrow> string \<Rightarrow> string res" where
  "RAW_PRINT_STR m buf out = rbind (read_cstr m buf) (\<lambda>s. Inr (RAW_WRITE s (length s) out))"

definition raw_digit :: "nat \<Rightarrow> char" where
  "raw_digit v = (if v > 9 then char_of (97 + v - 10) else char_of (48 + v))"

text \<open>
  The \<open>do\<close> loop on the absolute value: \<open>p\<close> indexes the buffer, \<open>acc\<close> holds what
  has been written above it.
\<close>

function raw_digits :: "nat \<Rightarrow> nat \<Rightarrow> int \<Rightarrow> string \<Rightarrow> (int \<times> string) res" where
  "raw_digits n base p acc =
     (if base = 0 then Inl Sigfpe
      else if p < 0 then Inl Indeterminate
      else if n div base = 0 then Inr (p - 1, raw_digit (n mod base) # acc)
      else raw_digits (n div base) base (p - 1) (raw_digit (n mod base) # acc))"
  by pat_completeness auto
termination
  by (relation "measure (\<lambda>(n, base, p, acc). nat (p + 1))") auto

declare raw_digits.simps [simp del]

definition RAW_PRINT_BASE_N :: "int \<Rightarrow> nat \<Rightarrow> string \<Rightarrow> string res" where
  "RAW_PRINT_BASE_N num base out =
     (if num = - (2 ^ 63) then Inl Indeterminate
      else
        rbind (raw_digits (nat \<bar>num\<bar>) base 20 []) (\<lambda>(p, s).
          if num < 0 then
            if p < 0 then Inl Indeterminate
            else Inr (RAW_WRITE (CHR ''-'' # s) (Suc (length s)) out)
          else Inr (RAW_WRITE s (length s) out)))"

definition RAW_PRINT_HEX :: "int \<Rightarrow> string \<Rightarrow> string res" where
  "RAW_PRINT_HEX num = RAW_PRINT_BASE_N num 16"

definition RAW_PRINT_INT :: "int \<Rightarrow> string \<Rightarrow> string res" where
  "RAW_PRINT_INT num = RAW_PRINT_BASE_N num 10"

text \<open>\<open>(unsigned long)num\<close> becomes a \<open>long long\<close> again inside the macro.\<close>

definition RAW_PRINT_PTR :: "u64 \<Rightarrow> string \<Rightarrow> string res" where
  "RAW_PRINT_PTR num out = RAW_PRINT_BASE_N (sint num) 16 (RAW_WRITE ''0x'' 2 out)"

definition RAW_PRINT_NL_AFTER_SOMETHING :: "(string \<Rightarrow> string res) \<Rightarrow> string \<Rightarrow> string res" where
  "RAW_PRINT_NL_AFTER_SOMETHING print out =
     rbind (print out) (\<lambda>out. Inr (RAW_WRITE [CHR 0x0A] 1 out))"

definition RAW_PUTS_STR :: "memory \<Rightarrow> addr \<Rightarrow> string \<Rightarrow> string res" where
  "RAW_PUTS_STR m buf = RAW_PRINT_NL_AFTER_SOMETHING (RAW_PRINT_STR m buf)"

definition RAW_PUTS_HEX :: "int \<Rightarrow> string \<Rightarrow> string res" where
  "RAW_PUTS_HEX num = RAW_PRINT_NL_AFTER_SOMETHING (RAW_PRINT_HEX num)"

definition RAW_PUTS_INT :: "int \<Rightarrow> string \<Rightarrow> string res" where
  "RAW_PUTS_INT num = RAW_PRINT_NL_AFTER_SOMETHING (RAW_PRINT_INT num)"

definition RAW_PUTS_PTR :: "u64 \<Rightarrow> string \<Rightarrow> string res" where
  "RAW_PUTS_PTR num = RAW_PRINT_NL_AFTER_SOMETHING (RAW_PRINT_PTR num)"

text \<open>The four string literals of the macro are addresses of memory, \<open>line\<close> is \<open>__LINE__\<close>.\<close>

definition RAW_DEBUG_MESSAGE ::
  "memory \<Rightarrow> addr \<Rightarrow> addr \<Rightarrow> addr \<Rightarrow> addr \<Rightarrow> int \<Rightarrow> string \<Rightarrow> string res" where
  "RAW_DEBUG_MESSAGE m message file colon newline line out =
     rbind (RAW_PRINT_STR m message out) (\<lambda>out.
     rbind (RAW_PRINT_STR m file out) (\<lambda>out.
     rbind (RAW_PRINT_STR m colon out) (\<lambda>out.
     rbind (RAW_PRINT_INT line out) (\<lambda>out.
     RAW_PRINT_STR m newline out))))"

section \<open>The digits\<close>

lemma raw_digits_base:
  assumes "2 \<le> b" and "length (base_digits b n) \<le> k + 1"
  shows "raw_digits n b (int k) acc =
    Inr (int k - int (length (base_digits b n)), map raw_digit (base_digits b n) @ acc)"
  using assms
proof (induction n arbitrary: k acc rule: less_induct)
  case (less n)
  show ?case
  proof (cases "n < b")
    case True
    then have "base_digits b n = [n]" using less.prems by (simp add: base_digits.simps)
    with True less.prems show ?thesis by (simp add: raw_digits.simps [of n])
  next
    case False
    then have d: "base_digits b n = base_digits b (n div b) @ [n mod b]"
      using less.prems by (simp add: base_digits.simps [of b n])
    have lt: "n div b < n" using False less.prems by (intro div_less_dividend) auto
    have nz: "n div b \<noteq> 0" using False less.prems by (simp add: div_eq_0_iff)
    have "length (base_digits b (n div b)) \<ge> 1" by (simp add: base_digits.simps [of b "n div b"])
    with d less.prems(2) have k: "1 \<le> k" "length (base_digits b (n div b)) \<le> (k - 1) + 1" by auto
    have "raw_digits n b (int k) acc =
        raw_digits (n div b) b (int (k - 1)) (raw_digit (n mod b) # acc)"
      using nz less.prems k by (simp add: raw_digits.simps [of n] of_nat_diff)
    also have "\<dots> = Inr (int (k - 1) - int (length (base_digits b (n div b))),
        map raw_digit (base_digits b (n div b)) @ raw_digit (n mod b) # acc)"
      using lt less.prems(1) k(2) by (rule less.IH)
    finally show ?thesis using d k by (simp add: of_nat_diff)
  qed
qed

lemma raw_digits_overflow:
  assumes "2 \<le> b" and "k + 1 < length (base_digits b n)"
  shows "raw_digits n b (int k) acc = Inl Indeterminate"
  using assms
proof (induction k arbitrary: n acc)
  case 0
  then have "b \<le> n" by (simp add: base_digits.simps [of b n] split: if_splits)
  with 0 show ?case by (simp add: raw_digits.simps [of n] raw_digits.simps [of _ _ "- 1"] div_eq_0_iff)
next
  case (Suc k)
  then have n: "b \<le> n" by (simp add: base_digits.simps [of b n] split: if_splits)
  with Suc.prems have "k + 1 < length (base_digits b (n div b))" by (simp add: base_digits.simps [of b n])
  from Suc.IH [OF Suc.prems(1) this] n Suc.prems(1) show ?case
    by (simp add: raw_digits.simps [of n] div_eq_0_iff)
qed

text \<open>What the macro has to print: a sign and the digits.\<close>

definition signed_digits :: "nat \<Rightarrow> int \<Rightarrow> string" where
  "signed_digits b num = (if num < 0 then ''-'' else []) @ map raw_digit (base_digits b (nat \<bar>num\<bar>))"

lemma raw_print_digits:
  assumes "2 \<le> b" and "num \<noteq> - (2 ^ 63)"
  shows "RAW_PRINT_BASE_N num b out =
    (if length (signed_digits b num) \<le> 21 then Inr (out @ signed_digits b num) else Inl Indeterminate)"
proof (cases "length (base_digits b (nat \<bar>num\<bar>)) \<le> 21")
  case True
  then have "raw_digits (nat \<bar>num\<bar>) b 20 [] = Inr (20 - int (length (base_digits b (nat \<bar>num\<bar>))),
      map raw_digit (base_digits b (nat \<bar>num\<bar>)))"
    using raw_digits_base [OF assms(1), of _ 20 "[]"] by simp
  with True assms(2) show ?thesis by (auto simp: RAW_PRINT_BASE_N_def RAW_WRITE_def signed_digits_def)
next
  case False
  then have "raw_digits (nat \<bar>num\<bar>) b 20 [] = Inl Indeterminate"
    using raw_digits_overflow [OF assms(1), of 20] by simp
  with False assms(2) show ?thesis by (simp add: RAW_PRINT_BASE_N_def signed_digits_def)
qed

lemma signed_digits_short:
  assumes "9 \<le> b" and "- (2 ^ 63) < num" and "num < 2 ^ 63"
  shows "length (signed_digits b num) \<le> 21"
proof -
  have "nat \<bar>num\<bar> < 9 ^ 20" using assms(2,3) by simp
  also have "\<dots> \<le> b ^ 20" using assms(1) by (intro power_mono) simp_all
  finally have "nat \<bar>num\<bar> < b ^ Suc 19" by simp
  from base_digits_length_le [OF _ this] assms(1) have "length (base_digits b (nat \<bar>num\<bar>)) \<le> 20" by simp
  then show ?thesis by (cases "num < 0") (simp_all add: signed_digits_def)
qed

lemma signed_digits_decimal:
  "signed_digits 10 num = (if num < 0 then ''-'' else []) @ dec_string (nat \<bar>num\<bar>)"
  unfolding signed_digits_def
  using base_digits_less [of 10 _ "nat \<bar>num\<bar>"] by (fastforce simp: dec_string_def raw_digit_def)

section \<open>Properties\<close>

text \<open>
  C33: the 21 byte buffer of \<open>RAW_PRINT_BASE_N\<close>. In every base from two up, the macro
  prints the sign and the digits of a \<open>long long\<close> other than the least when they fit into
  21 bytes, and otherwise writes before the start of its buffer. They always fit from base nine
  up, so \<open>RAW_PRINT_INT\<close> prints what C++ streams print; in base eight a negative number
  of 21 digits does not fit.
\<close>

theorem RAW_PRINT_BASE_N_buffer:
  assumes "2 \<le> base" and "- (2 ^ 63) < num" and "num < 2 ^ 63"
  shows "RAW_PRINT_BASE_N num base out =
      (if length (signed_digits base num) \<le> 21 then Inr (out @ signed_digits base num)
       else Inl Indeterminate) \<and>
    (9 \<le> base \<longrightarrow> length (signed_digits base num) \<le> 21) \<and>
    RAW_PRINT_INT num out = Inr (out @ (if num < 0 then ''-'' else []) @ dec_string (nat \<bar>num\<bar>))"
proof (intro conjI impI)
  from assms(2) have n: "num \<noteq> - (2 ^ 63)" by simp
  show "RAW_PRINT_BASE_N num base out = (if length (signed_digits base num) \<le> 21
      then Inr (out @ signed_digits base num) else Inl Indeterminate)"
    using assms(1) n by (rule raw_print_digits)
  show "length (signed_digits base num) \<le> 21" if "9 \<le> base"
    using that assms(2,3) by (rule signed_digits_short)
  show "RAW_PRINT_INT num out = Inr (out @ (if num < 0 then ''-'' else []) @ dec_string (nat \<bar>num\<bar>))"
    unfolding RAW_PRINT_INT_def
    using raw_print_digits [OF _ n, of 10] signed_digits_short [OF _ assms(2,3), of 10]
    by (simp add: signed_digits_decimal)
qed

theorem RAW_PRINT_BASE_N_buffer_witness:
  "RAW_PRINT_BASE_N (- (2 ^ 63 - 1)) 8 [] = Inl Indeterminate \<and>
   RAW_PRINT_BASE_N (2 ^ 63 - 1) 8 [] = Inr ''777777777777777777777'' \<and>
   RAW_PRINT_INT (- 42) [] = Inr ''-42''"
proof (intro conjI)
  have d: "signed_digits 8 (- (2 ^ 63 - 1)) = ''-777777777777777777777''"
    "signed_digits 8 (2 ^ 63 - 1) = ''777777777777777777777''" "dec_string 42 = ''42''" by code_simp+
  show "RAW_PRINT_BASE_N (- (2 ^ 63 - 1)) 8 [] = Inl Indeterminate"
    using RAW_PRINT_BASE_N_buffer [of 8 "- (2 ^ 63 - 1)" "[]"] by (simp add: d [simplified])
  show "RAW_PRINT_BASE_N (2 ^ 63 - 1) 8 [] = Inr ''777777777777777777777''"
    using RAW_PRINT_BASE_N_buffer [of 8 "2 ^ 63 - 1" "[]"] by (simp add: d [simplified])
  show "RAW_PRINT_INT (- 42) [] = Inr ''-42''"
    using RAW_PRINT_BASE_N_buffer [of 8 "- 42" "[]"] by (simp add: d)
qed

text \<open>
  \<open>RAW_PRINT_PTR\<close> shows addresses of the upper half as negative numbers, because the
  macro it expands to works on \<open>long long\<close>.
\<close>

lemma RAW_PRINT_PTR_upper_half:
  assumes "2 ^ 63 < unat p"
  shows "RAW_PRINT_PTR p out =
    Inr (out @ ''0x-'' @ map raw_digit (base_digits 16 (2 ^ 64 - unat p)))"
proof -
  have u: "uint p = int (unat p)" "unat p < 2 ^ 64" using unat_u64_less [of p] by simp_all
  have "unat p div 2 ^ 63 = 1" using assms u(2) by (intro div_nat_eqI) simp_all
  then have "int (unat p) div 2 ^ 63 = 1"
    using zdiv_int [of "unat p" "2 ^ 63"] by (simp del: of_nat_unat)
  then have "bit (int (unat p)) 63" by (simp add: bit_iff_odd del: of_nat_unat)
  moreover have "take_bit 64 (int (unat p)) = int (unat p)"
    using u(2) by (intro take_bit_int_eq_self) (simp_all del: of_nat_unat)
  ultimately have s: "sint p = int (unat p) - 2 ^ 64"
    using u by (simp add: sint_uint signed_take_bit_eq_take_bit_minus del: of_nat_unat)
  have "\<bar>sint p\<bar> = int (2 ^ 64 - unat p)" using s u(2) by (simp add: of_nat_diff del: of_nat_unat)
  then have n: "nat \<bar>sint p\<bar> = 2 ^ 64 - unat p" by simp
  have "2 ^ 64 - unat p < 16 ^ Suc 19" by simp
  from base_digits_length_le [OF _ this] have "length (base_digits 16 (2 ^ 64 - unat p)) \<le> 20" by simp
  with raw_print_digits [of 16 "sint p" "out @ ''0x''"] n s assms unat_u64_less [of p] uint_bounded [of p]
  show ?thesis
    by (simp add: RAW_PRINT_PTR_def RAW_WRITE_def signed_digits_def)
qed

end
