(* ===== verification/Spec2Isabelle.thy ===== *)
theory Spec2Isabelle
  imports Session Exec_Returns Raw_Write
begin

text \<open>
  Verification of sloader, a user-space loader for ELF programs on x86-64 Linux: it finds a
  program along \<open>PATH\<close>, maps it and its libraries, relocates them against each other and
  against the libc it was itself linked with, runs the constructors, builds the initial stack
  and jumps to the program's entry.

  \<^bold>\<open>Parts of the program and the theories that model them.\<close> Names of definitions are
  those of the source; \<open>x_ctor\<close> is the constructor of class \<open>x\<close>, a prefix
  \<open>exec_\<close> marks the members of \<open>ExecLoader\<close> that \<open>DynLoader\<close> has too.

  \<^item> \<open>Prelude\<close>: machine types, the result type (\<open>Inl\<close> is a process that stopped:
    a failed \<open>CHECK\<close>, an abort, a segmentation fault, a division by zero, an uncaught
    exception, the use of an object without a value), loops that stop at the first failure and
    the locale of their invariants, page arithmetic.
  \<^item> \<open>Memory\<close>, \<open>Cxx_Lib\<close>, \<open>Host\<close>, \<open>Elf\<close>: byte-addressed memory with the
    locale of byte stores; the parts of the C++ library the source uses; the process and the
    operating system, whose kernel and file system are the parameter \<open>os\<close> of every operation
    that reaches them (\<open>mmap_fresh\<close> and \<open>mmap_honours\<close> name what mmap(2) promises);
    the structures and constants of \<open>elf.h\<close>. \<open>Sample_Host\<close> is a concrete system the
    witnesses run on.
  \<^item> \<open>Utils\<close>: \<open>utils.h\<close> and \<open>utils.cc\<close>. \<open>Raw_Write\<close>:
    \<open>raw_write/raw_write.h\<close>.
  \<^item> \<open>Elf_Binary\<close>: class \<open>ELFBinary\<close> (record \<open>ELFBinary\<close>, constructor,
    \<open>Load\<close>, \<open>ParseDynamic\<close>, \<open>GetSymbolAddr\<close>). \<open>Dynamic_Section\<close>: what
    \<open>ParseDynamic\<close> makes of a dynamic section and its tables. \<open>Load_Returns\<close>: the
    files on which constructor, \<open>Load\<close> and \<open>ParseDynamic\<close> succeed.
  \<^item> \<open>Ldso_Conf\<close>, \<open>Find_Library\<close>: \<open>read_ldsoconf\<close> and \<open>FindLibrary\<close>.
  \<^item> \<open>Dyn_Loader\<close>: the record \<open>DynLoader\<close>, \<open>LoadDependingLibs\<close>,
    \<open>SearchSym\<close>, \<open>TLSSymOffset\<close>. \<open>Load_Order\<close>, \<open>Dependency_Graph\<close> and
    \<open>Images\<close>: what loading the dependency graph guarantees, over a step relation; the
    locale \<open>load_relation\<close> carries a relation between loader states from one load to the
    whole queue. \<open>Symbols\<close>: what the lookups return.
  \<^item> \<open>Relocate\<close>: \<open>DynLoader::Relocate\<close>, with \<open>Relocate_Returns\<close> on when it
    returns. \<open>Tls\<close>: \<open>tls_secure.cc\<close>, the part
    of \<open>Execute\<close> that fills the block, \<open>sloader_tls_get_addr\<close>. \<open>Start_Stack\<close>:
    the auxiliary vector, the stack array and \<open>ExecuteCore\<close>. \<open>Execute\<close>:
    constructors, \<open>Execute\<close> and \<open>Run\<close>. \<open>Start_Returns\<close>: the loaded files on
    which \<open>Run\<close> reaches its jump.
  \<^item> \<open>Libc_Mapping\<close>: \<open>libc_mapping.cc\<close>, the table entry by entry over the addresses a
    linker assigns. \<open>Sloader_Dl\<close>: \<open>sloader_dl.cc\<close>. \<open>Sloader\<close>:
    \<open>sloader.cc\<close> with \<open>InitializeDynLoader\<close>. \<open>Exec_Loader\<close>:
    \<open>exec_loader.h\<close>, with \<open>Exec_Returns\<close> on the static executables it starts.
  \<^item> \<open>Session\<close>: the life of a program under the loader, as the steps it can take once
    \<open>Run\<close> has loaded it (its own code, \<open>dlopen\<close>, \<open>dlsym\<close>), with the locale
    \<open>session_invariant\<close>. \<open>Sample_Run\<close> runs \<open>main\<close> on a small program with one
    library.

  \<^bold>\<open>What the lemmas show.\<close> This theory joins the parts: when \<open>main\<close> reaches the jump,
  the program is loaded, closed under its dependencies, relocated, and finds its arguments on
  the stack; constructors may call \<open>dlopen\<close> and \<open>dlsym\<close> on the way. It also shows
  that \<open>main\<close> does reach the jump once the files are mapped, their relocations can be carried
  out and stack and thread-local storage suffice. \<open>Session\<close> shows
  what stays true for as long as the program runs: the loaded set is closed and served,
  files do not overlap, memory and the kernel's areas agree, and a symbol once found keeps its
  address. The component theories show that a file's segments are in memory byte for byte and
  stay there while later files are loaded; that the queue is a breadth-first traversal that
  places files without overlap; that headers and dynamic section are read exactly and that a
  well-formed file does load; that lookups return
  the first match in load order; that every relocated slot holds the value its type prescribes
  and that a second call of \<open>Relocate\<close> leaves it alone, and
  when \<open>Relocate\<close> returns at all; that static thread-local storage is
  filled and addressed consistently, what its size check lets through and which block
  \<open>__tls_get_addr\<close> reaches; that constructors run in reverse load order; that the
  stack array reads back as what went in, for both loaders; that the static loader starts a
  well-formed static executable whose segments find room, and what its \<open>Unload\<close> gives back. Error paths are results of the model, and several
  properties say exactly when they are taken. A number of properties record behaviour that is
  not what the source means to do; each of them names the line.

  \<^bold>\<open>Bounds and termination.\<close> Every definition is total but the loop of \<open>SplitWith\<close>,
  which runs forever on an empty delimiter and returns an option. The queue of
  \<open>LoadDependingLibs\<close> ends because every loaded file uses up a descriptor for good; the
  recursion through included files of \<open>ld.so.conf\<close> is bounded by the descriptors left, since
  each level holds one, which is enough whenever the includes are well founded and shallower
  than that. The scan of the symbol table ends at the end of the address space at the latest.

  \<^bold>\<open>Parameters.\<close> The kernel, file system, environment and auxiliary vector (\<open>os\<close>), the
  addresses of libc's symbols and of the thread-local block (\<open>libc\<close>, \<open>link\<close>), the code
  of constructors (\<open>call\<close>, which is only asked to reach the loader through
  \<open>sloader_dlopen\<close> and \<open>sloader_dlsym\<close>), the placement of the characters of strings on the heap
  (\<open>c_strs\<close>), and the libc functions \<open>sloader_dl.cc\<close> and \<open>libc_mapping.cc\<close> pass
  through to.

  \<^bold>\<open>Not modelled.\<close> \<open>ldsodefs.h\<close> is a header of glibc with declarations only. The LOG
  macros write to a stream without a buffer; what evaluating their arguments can do (a read
  through a pointer, an abort in \<open>ShowSTT\<close>) is modelled. Registers other than \<open>%rsp\<close> and
  \<open>%rip\<close>, the variants of the raw macros for other processors, the arguments passed to
  constructors, threads, and the tests, examples and scripts of the repository are left out.
\<close>

section \<open>From \<open>main\<close> to the first instruction of the program\<close>

text \<open>What \<open>Execute\<close> leaves behind.\<close>

lemma Execute_starts:
  assumes "Execute os call T c_strs argv envp rsp s = Inr (s', rsp', rip)"
    and "strings_placed c_strs" and "length envp + length argv < 2 ^ 60"
  shows "rip = e_entry (ehdr (binaries (loader s') ! 0)) + base_addr (binaries (loader s') ! 0) \<and>
    (\<exists>n ws. read_words (mem (process s')) rsp' n = Inr ws \<and>
      parse_words ws = (c_strs argv, c_strs envp, rev (aux_tvs os)))"
proof -
  let ?st = "stack_words (aux_tvs os) (c_strs envp) (c_strs argv)"
  from assms(1) obtain s1 m off m' where
    p: "foldR pushq (m, rsp) ?st = Inr (m', rsp')"
    and r: "rip = e_entry (ehdr (binaries (loader s1) ! 0)) + base_addr (binaries (loader s1) ! 0)"
      "s' = s1\<lparr>process := (process s1)\<lparr>mem := m'\<rparr>, tls_offset := off\<rparr>"
    by (auto simp: Execute_def ExecuteCore_def build_stack_words res_simps Let_def)
  have c: "length (c_strs ss) = length ss" "0 \<notin> set (c_strs ss)" for ss
    using assms(2) by (auto simp: strings_placed_def)
  have len: "8 * length ?st \<le> 2 ^ 64"
    using aux_tvs_length [of os] assms(3) by (simp add: stack_words_def aux_words_length c)
  have "parse_words (rev ?st) = (c_strs argv, c_strs envp, rev (aux_tvs os))"
    using aux_tvs_typed c assms(3) by (intro parse_stack_words) auto
  with pushes_words [OF p len] r show ?thesis by auto
qed



text \<open>
  C11: a loaded program starts. Let \<open>main\<close> find the program, and let it and its libraries be
  mapped. If the relocations can be carried out, the arrays of constructors are mapped, the
  thread-local storage fits and there is stack (\<open>startable\<close>), if the constructors return and
  leave the loader and the mappings alone, and if the kernel gives an \<open>AT_RANDOM\<close>, then
  \<open>main\<close> reaches the jump to the entry of the program.
\<close>

theorem loaded_program_starts:
  assumes "program_path os argv0 = Inr path" and "os_exists os path"
    and "GetEType os path P = Inr (etype, P0)" and "etype = ET_DYN \<or> etype = ET_EXEC"
    and "InitializeDynLoader lc path envp (argv0 # rest) (None, P0) = Inr (Some L0, P1)"
    and "LoadDependingLibs os path (L0, P1) = Inr (L, P2)"
    and "startable lc rsp (start_words os (argv0 # rest) envp) (mem P2) L"
    and "tame_call call" and "os_getauxval os AT_RANDOM \<noteq> 0" and "strings_placed c_strs"
  shows "\<exists>s' rsp'. sloader_main os lc call c_strs rsp (prog # argv0 # rest) envp P =
      Inr (s', rsp', e_entry (ehdr (binaries L ! 0)) + base_addr (binaries L ! 0)) \<and>
    binaries (loader s') = binaries L"
proof -
  let ?s = "\<lparr>loader = L0, process = P1, tls_offset = sloader_tls_offset, called = []\<rparr>"
  from assms(5) have L0: "main_path L0 = path" "args L0 = argv0 # rest" "envs L0 = envp"
    by (auto simp: InitializeDynLoader_def DynLoader_ctor_def res_simps)
  with Run_returns [of os ?s L P2 lc rsp call c_strs] assms(6-10) obtain s' rsp' where
    "Run os lc call c_strs rsp ?s =
      Inr (s', rsp', e_entry (ehdr (binaries L ! 0)) + base_addr (binaries L ! 0))"
    "binaries (loader s') = binaries L" by auto
  with assms(1-5) show ?thesis by (auto simp: sloader_main_def GetDynLoader_def CHECK_def)
qed

theorem loaded_program_starts_witness:
  "\<exists>s' rsp'. sloader_main start_host start_libc quiet_call (map (\<lambda>_. 0x5000)) 0x50000
     [''sloader'', ''/a''] [] start_proc = Inr (s', rsp', 0x1400010) \<and> length (binaries (loader s')) = 2"
proof -
  obtain P0 L1 P1 L2 b c where i: "InitializeDynLoader start_libc ''/a'' [] [''/a'']
      (None, run_proc header_mem start_vmas 8 []) = Inr (Some start_loader, P0)"
    and l: "LoadDependingLibs start_host ''/a'' (start_loader, P0) = Inr (L1, P1)"
      "Relocate start_libc (L1, P1) = Inr (L2, P1)" "proc_wf P1" "vmas P1 = lib_vmas" "binaries L2 = [b, c]"
    and b: "plain_bin ''/a'' 0x1400000 [''b''] b" "plain_bin ''/lib/b'' 0x1800000 [] c"
    using start_loaded by (elim exE conjE) (rule that; assumption)
  have bs: "binaries L1 = [b, c]" using l(5) Relocate_fields(1) [OF l(2)] by simp
  then have st: "startable start_libc 0x50000 (start_words start_host [''/a''] []) (mem P1) L1"
    using b by (intro plain_startable [OF l(3) _ start_words_few]) (simp_all add: l(4) run_vmas plain_bin_def)
  have p: "program_path start_host ''/a'' = Inr ''/a''" "os_exists start_host ''/a''"
    by (simp_all add: program_path_def contains_def)
  from loaded_program_starts [OF p start_etype _ i l(1) st quiet_tame start_random start_strings, of "''sloader''"] bs b(1)
  obtain s' rsp' where "sloader_main start_host start_libc quiet_call (map (\<lambda>_. 0x5000)) 0x50000
      [''sloader'', ''/a''] [] start_proc = Inr (s', rsp', 0x1400010)" "binaries (loader s') = [b, c]"
    by (auto simp: plain_bin_def)
  then show ?thesis by (intro exI [of _ s'] exI [of _ rsp']) simp
qed

end
